theory Spec2Isabelle
  imports Main "HOL-Library.AList"
begin

section \<open>Python values used by giscanner/docwriter.py\<close>

text \<open>
  Python 2 \<open>str\<close> is a byte string, modelled as \<open>string\<close>.  Exceptions are values of
  \<open>error\<close>; a computation that may raise returns \<open>error + 'a\<close> with \<open>Inl\<close> the exception.
\<close>

datatype error =
    KeyError
  | IndexError
  | ValueError
  | TypeError
  | AttributeError
  | UnboundLocalError
  | RuntimeError
  | NotImplementedError

text \<open>\<open>text[i:j]\<close> for \<open>0 \<le> i\<close>, \<open>0 \<le> j\<close>.\<close>

definition slice :: "string \<Rightarrow> nat \<Rightarrow> nat \<Rightarrow> string" where
  "slice text i j = take (j - i) (drop i text)"

text \<open>Character classes of the regular expressions in \<open>DocstringScanner\<close>.\<close>

definition is_lower :: "char \<Rightarrow> bool" where
  "is_lower c = (let n = (of_char c :: nat) in 97 \<le> n \<and> n \<le> 122)"

definition is_upper :: "char \<Rightarrow> bool" where
  "is_upper c = (let n = (of_char c :: nat) in 65 \<le> n \<and> n \<le> 90)"

definition is_digit :: "char \<Rightarrow> bool" where
  "is_digit c = (let n = (of_char c :: nat) in 48 \<le> n \<and> n \<le> 57)"

text \<open>\<open>\s\<close> on byte strings without flags: space, \<open>\t \n \v \f \r\<close>.\<close>

definition is_space :: "char \<Rightarrow> bool" where
  "is_space c = (let n = (of_char c :: nat) in n = 32 \<or> (9 \<le> n \<and> n \<le> 13))"

datatype cls =
    Alpha        \<comment> \<open>\<open>[a-zA-Z0-9_]\<close>\<close>
  | AlphaDash    \<comment> \<open>\<open>[a-zA-Z0-9_-]\<close>\<close>
  | Space        \<comment> \<open>\<open>\s\<close>\<close>
  | Dot          \<comment> \<open>\<open>.\<close>: anything but a newline\<close>
  | Only char    \<comment> \<open>a literal character under a quantifier\<close>

fun cls_mem :: "cls \<Rightarrow> char \<Rightarrow> bool" where
  "cls_mem Alpha c = (is_lower c \<or> is_upper c \<or> is_digit c \<or> c = CHR ''_'')"
| "cls_mem AlphaDash c = (is_lower c \<or> is_upper c \<or> is_digit c \<or> c = CHR ''_'' \<or> c = CHR ''-'')"
| "cls_mem Space c = is_space c"
| "cls_mem Dot c = (c \<noteq> CHR 0x0A)"
| "cls_mem (Only d) c = (c = d)"

section \<open>TemplatedScanner\<close>

subsection \<open>Patterns\<close>

text \<open>
  A spec is a regular expression over literals, quantified character classes and groups, with
  placeholders \<open><<child>>\<close> and \<open><<alias:child>>\<close>.  The expressions of the repository use no
  other construct.  \<open>Rep c n\<close> is the greedy \<open>c+\<close> (\<open>n = 1\<close>) or \<open>c*\<close> (\<open>n = 0\<close>).
\<close>

datatype spec_item =
    SLit char
  | SRep cls nat
  | SOpen
  | SClose
  | SRef "string option" string

datatype re_item =
    Lit char
  | Rep cls nat
  | Open "string option"
  | Close

type_synonym spec = "string \<times> spec_item list"
type_synonym regex = "(string \<times> re_item list) list"

text \<open>\<open>name.lstrip('!')\<close>\<close>

definition lstrip_bang :: "string \<Rightarrow> string" where
  "lstrip_bang name = dropWhile (\<lambda>c. c = CHR ''!'') name"

text \<open>
  \<open>unmangle(spec, name)\<close>: every placeholder is replaced by the expansion of the child spec,
  itself unmangled with no name; it is wrapped in the named group \<open>name_alias\<close> when both the
  alias and the name are given (and not empty).  A child missing from \<open>specdict\<close> is a KeyError;
  the recursion depth is Python's, counted by \<open>depth\<close>.
\<close>

fun unmangle :: "nat \<Rightarrow> (string \<times> spec_item list) list \<Rightarrow> spec_item list \<Rightarrow> string option
    \<Rightarrow> error + re_item list" where
  "unmangle depth specdict [] name = Inr []"
| "unmangle depth specdict (SLit c # r) name =
     (case unmangle depth specdict r name of Inl e \<Rightarrow> Inl e | Inr rest \<Rightarrow> Inr (Lit c # rest))"
| "unmangle depth specdict (SRep c n # r) name =
     (case unmangle depth specdict r name of Inl e \<Rightarrow> Inl e | Inr rest \<Rightarrow> Inr (Rep c n # rest))"
| "unmangle depth specdict (SOpen # r) name =
     (case unmangle depth specdict r name of Inl e \<Rightarrow> Inl e | Inr rest \<Rightarrow> Inr (Open None # rest))"
| "unmangle depth specdict (SClose # r) name =
     (case unmangle depth specdict r name of Inl e \<Rightarrow> Inl e | Inr rest \<Rightarrow> Inr (Close # rest))"
| "unmangle depth specdict (SRef pattern_name child_spec_name # r) name =
     (case map_of specdict child_spec_name of
        None \<Rightarrow> Inl KeyError
      | Some child_spec \<Rightarrow>
          (case depth of
             0 \<Rightarrow> Inl RuntimeError
           | Suc d \<Rightarrow>
               (case unmangle d specdict child_spec None of
                  Inl e \<Rightarrow> Inl e
                | Inr unmangled \<Rightarrow>
                    (case unmangle depth specdict r name of
                       Inl e \<Rightarrow> Inl e
                     | Inr rest \<Rightarrow>
                         (case (pattern_name, name) of
                            (Some p, Some n) \<Rightarrow>
                              if p \<noteq> [] \<and> n \<noteq> []
                              then Inr (Open (Some (n @ ''_'' @ p)) # unmangled @ Close # rest)
                              else Inr (unmangled @ rest)
                          | _ \<Rightarrow> Inr (unmangled @ rest))))))"

text \<open>The dictionary \<open>dict((name.lstrip('!'), spec) for name, spec in specs)\<close>: a later entry wins.\<close>

definition specdict_of :: "spec list \<Rightarrow> (string \<times> spec_item list) list" where
  "specdict_of specs = rev (map (\<lambda>(name, spec). (lstrip_bang name, spec)) specs)"

fun unmangle_all :: "nat \<Rightarrow> (string \<times> spec_item list) list \<Rightarrow> spec list
    \<Rightarrow> error + (string \<times> re_item list) list" where
  "unmangle_all depth specdict [] = Inr []"
| "unmangle_all depth specdict ((name, spec) # specs) =
     (case unmangle depth specdict spec (Some name) of
        Inl e \<Rightarrow> Inl e
      | Inr u \<Rightarrow>
          (case unmangle_all depth specdict specs of
             Inl e \<Rightarrow> Inl e
           | Inr us \<Rightarrow> Inr ((name, u) # us)))"

definition recursion_limit :: nat where
  "recursion_limit = 1000"

definition unmangle_specs :: "spec list \<Rightarrow> error + (string \<times> re_item list) list" where
  "unmangle_specs specs = unmangle_all recursion_limit (specdict_of specs) specs"

text \<open>
  \<open>make_regex\<close>: the alternation \<open>(?P<name>spec)|...\<close> of the specs whose name does not start
  with \<open>!\<close>, in the order of the list.
\<close>

definition startswith :: "string \<Rightarrow> string \<Rightarrow> bool" where
  "startswith s p = (take (length p) s = p)"

definition make_regex :: "(string \<times> re_item list) list \<Rightarrow> regex" where
  "make_regex specs = filter (\<lambda>(name, spec). \<not> startswith name ''!'') specs"

subsection \<open>Matching\<close>

text \<open>
  The backtracking matcher of \<open>re\<close> on these patterns: a quantified class first takes the
  longest run and gives characters back one at a time; a group records the text between its
  parentheses.  The result is the end position and the named groups that took part.
\<close>

fun run_length :: "cls \<Rightarrow> string \<Rightarrow> nat" where
  "run_length c [] = 0"
| "run_length c (x # xs) = (if cls_mem c x then Suc (run_length c xs) else 0)"

fun backtrack :: "(nat \<Rightarrow> 'a option) \<Rightarrow> nat \<Rightarrow> nat \<Rightarrow> 'a option" where
  "backtrack f 0 mn = (if 0 < mn then None else f 0)"
| "backtrack f (Suc n) mn =
     (if Suc n < mn then None
      else (case f (Suc n) of Some r \<Rightarrow> Some r | None \<Rightarrow> backtrack f n mn))"

fun rmatch :: "re_item list \<Rightarrow> string \<Rightarrow> nat \<Rightarrow> (string option \<times> nat) list
    \<Rightarrow> (string \<times> string) list \<Rightarrow> (nat \<times> (string \<times> string) list) option" where
  "rmatch [] text i stk caps = Some (i, caps)"
| "rmatch (Lit c # r) text i stk caps =
     (if i < length text \<and> text ! i = c then rmatch r text (Suc i) stk caps else None)"
| "rmatch (Rep c mn # r) text i stk caps =
     backtrack (\<lambda>k. rmatch r text (i + k) stk caps) (run_length c (drop i text)) mn"
| "rmatch (Open nm # r) text i stk caps = rmatch r text i ((nm, i) # stk) caps"
| "rmatch (Close # r) text i [] caps = None"
| "rmatch (Close # r) text i ((nm, j) # stk) caps =
     rmatch r text i stk
       (case nm of None \<Rightarrow> caps | Some n \<Rightarrow> AList.update n (slice text j i) caps)"

text \<open>The names of the named groups of a pattern, in order.\<close>

fun group_names :: "re_item list \<Rightarrow> string list" where
  "group_names [] = []"
| "group_names (Open (Some n) # r) = n # group_names r"
| "group_names (x # r) = group_names r"

text \<open>
  A match object: \<open>start()\<close>, \<open>end()\<close>, \<open>lastgroup\<close> and \<open>groupdict()\<close>, which has every named
  group of the expression, \<open>None\<close> for one that did not take part.
\<close>

record rematch =
  m_start :: nat
  m_end :: nat
  m_lastgroup :: "string option"
  m_groupdict :: "(string \<times> string option) list"

definition all_groups :: "regex \<Rightarrow> string list" where
  "all_groups rx = concat (map (\<lambda>(name, spec). name # group_names spec) rx)"

text \<open>
  At one start position the alternatives are tried in order.  The group of the winning
  alternative closes last, so it is \<open>lastgroup\<close>.
\<close>

fun match_alts :: "regex \<Rightarrow> regex \<Rightarrow> string \<Rightarrow> nat \<Rightarrow> rematch option" where
  "match_alts rx [] text pos = None"
| "match_alts rx ((name, spec) # alts) text pos =
     (case rmatch spec text pos [] [] of
        Some (e, caps) \<Rightarrow>
          Some \<lparr> m_start = pos, m_end = e, m_lastgroup = Some name,
                 m_groupdict =
                   map (\<lambda>g. (g, if g = name then Some (slice text pos e) else map_of caps g))
                     (all_groups rx) \<rparr>
      | None \<Rightarrow> match_alts rx alts text pos)"

text \<open>
  \<open>regex.search(text, pos)\<close>: the leftmost start position at or after \<open>pos\<close> with a match.
  The empty alternation (no public spec) matches the empty string, with no group.  \<open>scan\<close>
  calls it with \<open>pos\<close> inside the text or at its end only.
\<close>

function search :: "regex \<Rightarrow> string \<Rightarrow> nat \<Rightarrow> rematch option" where
  "search rx text pos =
     (if length text < pos then None
      else if rx = [] then
        Some \<lparr> m_start = pos, m_end = pos, m_lastgroup = None, m_groupdict = [] \<rparr>
      else (case match_alts rx rx text pos of
              Some m \<Rightarrow> Some m
            | None \<Rightarrow> search rx text (Suc pos)))"
  by pat_completeness auto
termination
  by (relation "measure (\<lambda>(rx, text, pos). Suc (length text) - pos)") auto

declare search.simps [simp del]

subsection \<open>Tokens\<close>

type_synonym props = "(string \<times> string option) list"
type_synonym token = "string \<times> string \<times> props option"

text \<open>
  \<open>get_properties\<close>: the entry of the group \<open>name\<close> itself, then every other group of
  \<open>groupdict()\<close> whose name starts with \<open>name_\<close>, under the rest of its name.
\<close>

definition get_properties :: "string option \<Rightarrow> rematch \<Rightarrow> error + props" where
  "get_properties name m =
     (case name of
        None \<Rightarrow> Inl KeyError
      | Some nm \<Rightarrow>
          (case map_of (m_groupdict m) nm of
             None \<Rightarrow> Inl KeyError
           | Some v \<Rightarrow>
               Inr (fold (\<lambda>(group, val) properties.
                            if startswith group (nm @ ''_'')
                            then AList.update (drop (length (nm @ ''_'')) group) val properties
                            else properties)
                      (AList.delete nm (m_groupdict m)) [(nm, v)])))"

text \<open>
  \<open>scan\<close>: the generator, run to its end.  The loop does not end when a match is empty and
  leaves \<open>pos\<close> where it was, so the result is optional: \<open>None\<close> is a scan that never returns.
\<close>

partial_function (option) scan_loop :: "regex \<Rightarrow> string \<Rightarrow> nat \<Rightarrow> (error + token list) option" where
  "scan_loop rx text pos =
     (case search rx text pos of
        None \<Rightarrow>
          Some (Inr (if pos < length text then [(''other'', drop pos text, None)] else []))
      | Some m \<Rightarrow>
          (case get_properties (m_lastgroup m) m of
             Inl e \<Rightarrow> Some (Inl e)
           | Inr properties \<Rightarrow>
               Option.bind (scan_loop rx text (m_end m))
                 (\<lambda>rest. Some (case rest of
                    Inl e \<Rightarrow> Inl e
                  | Inr toks \<Rightarrow>
                      Inr ((if pos < m_start m
                            then [(''other'', slice text pos (m_start m), None)] else [])
                           @ ((case m_lastgroup m of None \<Rightarrow> [] | Some name \<Rightarrow> name),
                              slice text (m_start m) (m_end m), Some properties)
                           # toks)))))"

declare scan_loop.simps [code]

definition scan :: "regex \<Rightarrow> string \<Rightarrow> (error + token list) option" where
  "scan rx text = scan_loop rx text 0"

subsection \<open>DocstringScanner\<close>

definition docstring_specs :: "spec list" where
  "docstring_specs =
   [ (''!alpha'', [SRep Alpha 1]),
     (''!alpha_dash'', [SRep AlphaDash 1]),
     (''!anything'', [SRep Dot 0]),
     (''note'', [SRep (Only (CHR 0x0A)) 1, SLit (CHR ''>''), SRep Space 0,
                 SRef (Some ''note_contents'') ''anything'', SRep Space 0, SLit (CHR 0x0A)]),
     (''new_paragraph'', [SLit (CHR 0x0A), SLit (CHR 0x0A)]),
     (''new_line'', [SLit (CHR 0x0A)]),
     (''code_start_with_language'',
        [SLit (CHR ''|''), SLit (CHR ''[''), SLit (CHR ''<''), SLit (CHR ''!''),
         SLit (CHR ''-''), SLit (CHR ''-''), SRep Space 0,
         SLit (CHR ''l''), SLit (CHR ''a''), SLit (CHR ''n''), SLit (CHR ''g''),
         SLit (CHR ''u''), SLit (CHR ''a''), SLit (CHR ''g''), SLit (CHR ''e''),
         SRep Space 0, SLit (CHR ''=''), SRep Space 0, SLit (CHR 0x22),
         SRef (Some ''language_name'') ''alpha'', SLit (CHR 0x22), SRep Space 0,
         SLit (CHR ''-''), SLit (CHR ''-''), SLit (CHR ''>'')]),
     (''code_start'', [SLit (CHR ''|''), SLit (CHR ''['')]),
     (''code_end'', [SLit (CHR '']''), SLit (CHR ''|'')]),
     (''property'', [SLit (CHR ''#''), SRef (Some ''type_name'') ''alpha'', SLit (CHR '':''),
                     SOpen, SRef (Some ''property_name'') ''alpha_dash'', SClose]),
     (''signal'', [SLit (CHR ''#''), SRef (Some ''type_name'') ''alpha'', SLit (CHR '':''),
                   SLit (CHR '':''), SOpen, SRef (Some ''signal_name'') ''alpha_dash'', SClose]),
     (''type_name'', [SLit (CHR ''#''), SOpen, SRef (Some ''type_name'') ''alpha'', SClose]),
     (''enum_value'', [SLit (CHR ''%''), SOpen, SRef (Some ''member_name'') ''alpha'', SClose]),
     (''parameter'', [SLit (CHR ''@''), SRef (Some ''param_name'') ''alpha'']),
     (''function_call'', [SRef (Some ''symbol_name'') ''alpha'', SLit (CHR ''(''), SLit (CHR '')'')]),
     (''include'', [SLit (CHR ''{''), SLit (CHR ''{''), SRep Space 0,
                    SRef (Some ''include_name'') ''anything'', SRep Space 0,
                    SLit (CHR ''}''), SLit (CHR ''}'')]),
     (''heading'', [SRep (Only (CHR ''#'')) 1, SRep Space 1, SRef (Some ''heading'') ''anything'']) ]"

text \<open>The compiled expression of \<open>DocstringScanner()\<close>; \<open>re.compile\<close> fails when the specs do.\<close>

definition docstring_regex :: "error + regex" where
  "docstring_regex = (case unmangle_specs docstring_specs of
                        Inl e \<Rightarrow> Inl e
                      | Inr specs \<Rightarrow> Inr (make_regex specs))"

section \<open>String operations of Python\<close>

text \<open>\<open>str.replace(old, new)\<close>: every non-overlapping occurrence, from the left.\<close>

function py_replace :: "string \<Rightarrow> string \<Rightarrow> string \<Rightarrow> string" where
  "py_replace [] old new = (if old = [] then new else [])"
| "py_replace (c # cs) old new =
     (if old = [] then new @ c # py_replace cs old new
      else if startswith (c # cs) old then new @ py_replace (drop (length old) (c # cs)) old new
      else c # py_replace cs old new)"
  by pat_completeness auto
termination
  by (relation "measure (\<lambda>(s, old, new). length s)") auto

text \<open>\<open>saxutils.escape(data)\<close> with no extra entities.\<close>

definition escape :: "string \<Rightarrow> string" where
  "escape data =
     py_replace (py_replace (py_replace data ''&'' ''&amp;'') ''>'' ''&gt;'') ''<'' ''&lt;''"

text \<open>\<open>re.split(" |\(|\)", text)\<close>: the pieces between the separators, empty ones included.\<close>

fun re_split :: "(char \<Rightarrow> bool) \<Rightarrow> string \<Rightarrow> string list" where
  "re_split sep [] = [[]]"
| "re_split sep (c # cs) =
     (if sep c then [] # re_split sep cs
      else (case re_split sep cs of
              [] \<Rightarrow> [[c]]
            | w # ws \<Rightarrow> (c # w) # ws))"

definition is_word_sep :: "char \<Rightarrow> bool" where
  "is_word_sep c = (c = CHR '' '' \<or> c = CHR ''('' \<or> c = CHR '')'')"

text \<open>\<open>s.strip(chars)\<close>, \<open>s.rstrip(chars)\<close>, and \<open>s.strip()\<close>, which strips whitespace.\<close>

definition rstrip_chars :: "(char \<Rightarrow> bool) \<Rightarrow> string \<Rightarrow> string" where
  "rstrip_chars p s = rev (dropWhile p (rev s))"

definition strip_chars :: "(char \<Rightarrow> bool) \<Rightarrow> string \<Rightarrow> string" where
  "strip_chars p s = rstrip_chars p (dropWhile p s)"

definition py_strip :: "string \<Rightarrow> string" where
  "py_strip s = strip_chars is_space s"

definition lower_char :: "char \<Rightarrow> char" where
  "lower_char c = (if is_upper c then char_of (of_char c + (32 :: nat)) else c)"

definition upper_char :: "char \<Rightarrow> char" where
  "upper_char c = (if is_lower c then char_of (of_char c - (32 :: nat)) else c)"

definition lower :: "string \<Rightarrow> string" where
  "lower s = map lower_char s"

definition upper :: "string \<Rightarrow> string" where
  "upper s = map upper_char s"

text \<open>\<open>d[k]\<close> on a dictionary.\<close>

definition dict_get :: "('k \<times> 'v) list \<Rightarrow> 'k \<Rightarrow> error + 'v" where
  "dict_get d k = (case map_of d k of None \<Rightarrow> Inl KeyError | Some v \<Rightarrow> Inr v)"

section \<open>The language table\<close>

definition language_mimes :: "(string \<times> string) list" where
  "language_mimes =
   [ (''bash-script'', ''application/x-shellscript''),
     (''shell'', ''application/x-shellscript''),
     (''csharp'', ''text/x-csharp''),
     (''css'', ''text/css''),
     (''diff'', ''text/xpatch''),
     (''html'', ''text/html''),
     (''java'', ''text/x-java''),
     (''javascript'', ''application/javascript''),
     (''lisp'', ''text/x-scheme''),
     (''lua'', ''text-x-lua''),
     (''c'', ''text/x-csrc''),
     (''c++'', ''text/x-c++src''),
     (''pascal'', ''text/x-pascal''),
     (''perl'', ''application/x-perl''),
     (''php'', ''application/x-php''),
     (''python'', ''text/x-python''),
     (''ruby'', ''application/x-ruby''),
     (''sql'', ''text/x-sql''),
     (''yaml'', ''application/x-yaml'') ]"

section \<open>The namespace model the formatter reads\<close>

text \<open>
  The classes of \<open>ast\<close> that \<open>docwriter.py\<close> tells apart with \<open>isinstance\<close>, and the attributes
  it reads.  \<open>n_namespace\<close> is \<open>None\<close> for an object with no attribute \<open>namespace\<close> and
  \<open>Some None\<close> for the value \<open>None\<close>; \<open>n_properties\<close> and \<open>n_signals\<close> are \<open>None\<close> for
  an object without the attribute.
\<close>

datatype node_kind =
    Namespace | Class | Interface | Record | Function | Property | Signal | VFunction
  | Field | Member | Constant | Callback | OtherNode

record namespace =
  ns_name :: string
  ns_version :: string
  exported_packages :: "string list"

datatype node =
  Node (n_kind: node_kind) (n_name: string) (n_namespace: "namespace option option")
       (n_parent: "node option") (n_chain: "node list") (n_shadows: "string option")
       (n_properties: "node list option") (n_signals: "node list option")

record parameter =
  is_varargs :: bool
  argname :: string

text \<open>An entry of the reference map: \<open>(dir_, online_reference, symbol_map)\<close>.\<close>

record reference =
  ref_dir :: string
  ref_online :: "string option"
  ref_symbols :: "(string \<times> string) list"

text \<open>
  What the formatter is given and what it calls outside this file: the options of
  \<open>__init__\<close>, the transformer, the namespaces' lookups, the file system, the reference
  map filled at start, the tables and methods of the language's subclass, and the functions
  of other modules.  \<open>split_ctype_namespaces\<close> and \<open>split_csymbol_namespaces\<close> raise
  ValueError for an identifier no namespace claims.  \<open>get_parameter node\<close> is \<open>None\<close> for
  an owner with no method \<open>get_parameter\<close>.  \<open>fs_open\<close> gives the contents of a file that
  opens and \<open>None\<close> for one that does not.  \<open>iteritems\<close> is the order in which
  Python 2 iterates a dictionary, given in the order of insertion.
\<close>

record env =
  online :: bool
  link_to_gtk_doc :: bool
  opt_resolve_implicit_links :: bool
  transformer_namespace :: namespace
  split_ctype_namespaces :: "string \<Rightarrow> error + (namespace \<times> string) list"
  split_csymbol_namespaces :: "string \<Rightarrow> error + (namespace \<times> string) list"
  ns_get :: "namespace \<Rightarrow> string \<Rightarrow> node option"
  ns_get_by_symbol :: "namespace \<Rightarrow> string \<Rightarrow> node option"
  get_parameter :: "node \<Rightarrow> (string \<Rightarrow> error + parameter) option"
  include_directories :: "string list"
  fs_open :: "string \<Rightarrow> string option"
  path_join :: "string \<Rightarrow> string \<Rightarrow> string"
  reference_map :: "(string \<times> reference) list"
  fundamentals :: "(string \<times> string) list"
  format_function_name :: "node \<Rightarrow> error + string"
  make_gtkdoc_id :: "node \<Rightarrow> string"
  strip_version :: "string \<Rightarrow> string"
  build_xml_tag :: "string \<Rightarrow> (string \<times> string) list \<Rightarrow> string option \<Rightarrow> string"
  iteritems :: "(string \<times> string) list \<Rightarrow> (string \<times> string) list"

text \<open>
  The mutable attributes of a \<open>DocFormatter\<close>, and the warnings it has sent to
  \<open>message.warn\<close>.
\<close>

record state =
  processing_code :: bool
  opened_sections :: int
  warned_external_references :: "string list"
  warnings :: "string list"

definition init_state :: state where
  "init_state = \<lparr> processing_code = False, opened_sections = 0,
                   warned_external_references = [], warnings = [] \<rparr>"

section \<open>Page identifiers\<close>

definition namespace_name :: "node \<Rightarrow> error + string" where
  "namespace_name node = (case n_namespace node of
                            Some (Some ns) \<Rightarrow> Inr (ns_name ns)
                          | _ \<Rightarrow> Inl AttributeError)"

definition truthy :: "string option \<Rightarrow> bool" where
  "truthy s = (case s of None \<Rightarrow> False | Some v \<Rightarrow> v \<noteq> [])"

definition is_function :: "node \<Rightarrow> bool" where
  "is_function node = (n_kind node = Function)"

definition chain_parent :: "node \<Rightarrow> node option" where
  "chain_parent node = (if n_chain node \<noteq> [] then Some (last (n_chain node)) else n_parent node)"

function make_page_id :: "node \<Rightarrow> bool \<Rightarrow> error + string" where
  "make_page_id node recursive =
     (if n_kind node = Namespace then (if recursive then Inr (n_name node) else Inr ''index'')
      else (case chain_parent node of
              None \<Rightarrow>
                (case namespace_name node of
                   Inl e \<Rightarrow> Inl e
                 | Inr nsn \<Rightarrow>
                     if is_function node \<and> truthy (n_shadows node)
                     then Inr (nsn @ ''.'' @ the (n_shadows node))
                     else Inr (nsn @ ''.'' @ n_name node))
            | Some parent \<Rightarrow>
                (case make_page_id parent True of
                   Inl e \<Rightarrow> Inl e
                 | Inr pid \<Rightarrow>
                     if n_kind node \<in> {Property, Signal, VFunction, Field}
                     then Inr (pid @ ''-'' @ n_name node)
                     else if is_function node \<and> truthy (n_shadows node)
                     then Inr (pid @ ''.'' @ the (n_shadows node))
                     else Inr (pid @ ''.'' @ n_name node))))"
  by pat_completeness auto
termination
proof (relation "measure (\<lambda>(node, recursive). size node)")
  show "wf (measure (\<lambda>(node, recursive). size node))" by simp
next
  fix node :: node and recursive :: bool and p
  assume cp: "chain_parent node = Some p"
  have "size p < size node"
  proof (cases node)
    case (Node k nm ns par ch sh pr sg)
    show ?thesis
    proof (cases "ch = []")
      case True
      with cp Node have "par = Some p" by (simp add: chain_parent_def)
      with Node show ?thesis by simp
    next
      case False
      with cp Node have "p = last ch" by (simp add: chain_parent_def)
      with False have "p \<in> set ch" by simp
      then have "size p \<le> size_list size ch" by (rule size_list_estimation') simp
      with Node show ?thesis by simp
    qed
  qed
  then show "((p, True), (node, recursive)) \<in> measure (\<lambda>(node, recursive). size node)"
    by simp
qed

declare make_page_id.simps [simp del]

section \<open>Resolving identifiers\<close>

text \<open>The first namespace of \<open>matches\<close> whose lookup gives a node.\<close>

fun first_node :: "('a \<Rightarrow> node option) \<Rightarrow> 'a list \<Rightarrow> node option" where
  "first_node f [] = None"
| "first_node f (x # xs) = (case f x of Some node \<Rightarrow> Some node | None \<Rightarrow> first_node f xs)"

definition resolve_type :: "env \<Rightarrow> string \<Rightarrow> error + node option" where
  "resolve_type env ident =
     (case split_ctype_namespaces env ident of
        Inl e \<Rightarrow> (if e = ValueError then Inr None else Inl e)
      | Inr matches \<Rightarrow> Inr (first_node (\<lambda>(namespace, name). ns_get env namespace name) matches))"

text \<open>
  In \<open>_resolve_symbol\<close> the variable \<open>node\<close> is bound by the first loop only: with no
  match at all, \<open>if not node\<close> reads an unbound local.
\<close>

definition resolve_symbol :: "env \<Rightarrow> string \<Rightarrow> error + node option" where
  "resolve_symbol env symbol =
     (case split_csymbol_namespaces env symbol of
        Inl e \<Rightarrow> (if e = ValueError then Inr None else Inl e)
      | Inr matches \<Rightarrow>
          (case first_node (\<lambda>(namespace, name). ns_get_by_symbol env namespace symbol) matches of
             Some node \<Rightarrow> Inr (Some node)
           | None \<Rightarrow>
               if matches = [] then Inl UnboundLocalError
               else Inr (first_node (\<lambda>(namespace, name). ns_get env namespace name) matches)))"

section \<open>Cross-references\<close>

function format_page_name :: "env \<Rightarrow> node \<Rightarrow> error + string" where
  "format_page_name env node =
     (if n_kind node = Namespace then Inr (n_name node)
      else if is_function node then format_function_name env node
      else (case (if n_kind node \<in> {Property, Signal, VFunction, Field} then n_parent node
                  else None) of
              Some parent \<Rightarrow>
                (case format_page_name env parent of
                   Inl e \<Rightarrow> Inl e
                 | Inr pn \<Rightarrow>
                     Inr (pn @ (if n_kind node = Property then '':''
                                else if n_kind node = Field then ''->''
                                else ''::'') @ n_name node))
            | None \<Rightarrow> make_page_id node False))"
  by pat_completeness auto
termination
proof (relation "measure (\<lambda>(env, node). size node)")
  show "wf (measure (\<lambda>(env, node). size node))" by simp
next
  fix env :: "env" and node :: node and x2
  assume "(if n_kind node \<in> {Property, Signal, VFunction, Field} then n_parent node else None)
          = Some x2"
  then have "n_parent node = Some x2" by (simp split: if_splits)
  then have "size x2 < size node" by (cases node) simp
  then show "((env, x2), (env, node)) \<in> measure (\<lambda>(env, node). size node)" by simp
qed

declare format_page_name.simps [simp del]

definition format_internal_xref :: "env \<Rightarrow> node \<Rightarrow> (string \<times> string) list \<Rightarrow> string option
    \<Rightarrow> bool \<Rightarrow> error + string" where
  "format_internal_xref env node attrdict linkname pluralize =
     (case make_page_id node False of
        Inl e \<Rightarrow> Inl e
      | Inr page_id \<Rightarrow>
          (let attrs = (''xref'', page_id) # attrdict in
           if truthy linkname then Inr (build_xml_tag env ''link'' attrs linkname)
           else if \<not> pluralize then Inr (build_xml_tag env ''link'' attrs None)
           else Inr (build_xml_tag env ''link'' attrs (Some (page_id @ ''s'')))))"

fun find_reference :: "env \<Rightarrow> string list \<Rightarrow> reference option \<times> bool" where
  "find_reference env [] = (None, False)"
| "find_reference env (package # rest) =
     (case map_of (reference_map env) package of
        Some reference \<Rightarrow> (Some reference, True)
      | None \<Rightarrow>
          (case map_of (reference_map env) (strip_version env package) of
             Some reference \<Rightarrow> (Some reference, False)
           | None \<Rightarrow> find_reference env rest))"

text \<open>\<open>'%s' % x\<close> for a string or \<open>None\<close>.\<close>

definition py_str :: "string option \<Rightarrow> string" where
  "py_str x = (case x of None \<Rightarrow> ''None'' | Some s \<Rightarrow> s)"

text \<open>\<open>reference.split("/", 1)[1]\<close>\<close>

definition after_slash :: "string \<Rightarrow> error + string" where
  "after_slash s = (case dropWhile (\<lambda>c. c \<noteq> CHR ''/'') s of
                      [] \<Rightarrow> Inl IndexError
                    | c # rest \<Rightarrow> Inr rest)"

definition message_warn :: "string \<Rightarrow> state \<Rightarrow> state" where
  "message_warn text st = st \<lparr> warnings := warnings st @ [text] \<rparr>"

definition warn :: "string \<Rightarrow> string \<Rightarrow> state \<Rightarrow> state" where
  "warn text nsn st =
     (message_warn text st)
       \<lparr> warned_external_references := warned_external_references st @ [nsn] \<rparr>"

text \<open>
  \<open>format_gtk_doc_attributes\<close>, in its three steps: the warning, sent once for a namespace;
  the anchor of the node in the reference that was found; the attribute.
\<close>

definition warn_reference :: "env \<Rightarrow> namespace \<Rightarrow> reference option \<Rightarrow> bool \<Rightarrow> state \<Rightarrow> state" where
  "warn_reference env ns ref exact st =
     (let ref0 = (case ref of None \<Rightarrow> False | Some r \<Rightarrow> ref_dir r \<noteq> []);
          ref1 = (case ref of None \<Rightarrow> None | Some r \<Rightarrow> ref_online r);
          fresh = (ns_name ns \<notin> set (warned_external_references st))
      in if \<not> ref0 \<and> fresh
         then warn (''No reference found for '' @ ns_name ns @ ns_version ns) (ns_name ns) st
         else if online env \<and> \<not> truthy ref1 \<and> fresh
         then warn (''No online reference found for '' @ ns_name ns @ ns_version ns)
                (ns_name ns) st
         else if \<not> exact \<and> fresh
         then warn (''Using an approximate match for reference '' @ ns_name ns
                    @ ns_version ns @ '':'' @ py_str (map_option ref_dir ref))
                (ns_name ns) st
         else st)"

definition lookup_reference :: "env \<Rightarrow> node \<Rightarrow> reference option \<Rightarrow> error + string option" where
  "lookup_reference env node ref =
     (case ref of
        None \<Rightarrow> Inr None
      | Some r \<Rightarrow>
          if ref_dir r = [] then Inr None
          else (let ident = make_gtkdoc_id env node;
                    gtk_doc_identifier =
                      (if n_kind node \<in> {Constant, Member}
                       then upper ident @ '':CAPS'' else ident)
                in (case map_of (ref_symbols r) gtk_doc_identifier of
                      None \<Rightarrow> Inr None
                    | Some reference \<Rightarrow>
                        (case after_slash reference of
                           Inl e \<Rightarrow> Inl e
                         | Inr tail \<Rightarrow> Inr (Some tail)))))"

definition format_gtk_doc_attributes :: "env \<Rightarrow> state \<Rightarrow> node \<Rightarrow> (string \<times> string) list
    \<Rightarrow> error + ((string \<times> string) list \<times> state)" where
  "format_gtk_doc_attributes env st node attrdict =
     (case n_namespace node of
        None \<Rightarrow> Inl AttributeError
      | Some None \<Rightarrow> Inl AttributeError
      | Some (Some ns) \<Rightarrow>
          (case find_reference env (exported_packages ns) of
             (ref, exact) \<Rightarrow>
               (let attrs = [(''href'', ''FIXME broken link to '' @ n_name node)];
                    st' = warn_reference env ns ref exact st
                in (case lookup_reference env node ref of
                      Inl e \<Rightarrow> Inl e
                    | Inr reference \<Rightarrow>
                        if online env \<and> truthy reference
                        then Inr ([(''href'', py_str (case ref of None \<Rightarrow> None
                                                       | Some r \<Rightarrow> ref_online r)
                                           @ ''/'' @ py_str reference)], st')
                        else if truthy reference
                        then Inr ([(''href'', path_join env (py_str (map_option ref_dir ref))
                                                (py_str reference))], st')
                        else Inr (attrs, st')))))"

definition format_external_xref :: "env \<Rightarrow> state \<Rightarrow> node \<Rightarrow> (string \<times> string) list
    \<Rightarrow> string option \<Rightarrow> bool \<Rightarrow> error + (string \<times> state)" where
  "format_external_xref env st node attrdict linkname pluralize =
     (case (if link_to_gtk_doc env then format_gtk_doc_attributes env st node attrdict
            else (case n_namespace node of
                    None \<Rightarrow> Inl AttributeError
                  | Some None \<Rightarrow> Inl AttributeError
                  | Some (Some ns) \<Rightarrow>
                      (case make_page_id node False of
                         Inl e \<Rightarrow> Inl e
                       | Inr page_id \<Rightarrow>
                           Inr ([(''href'', ''../'' @ ns_name ns @ ''-'' @ ns_version ns @ ''/''
                                            @ page_id @ ''.html'')], st)))) of
        Inl e \<Rightarrow> Inl e
      | Inr (attrs0, st') \<Rightarrow>
          (let attrs = attrs0 @ attrdict in
           if truthy linkname then Inr (build_xml_tag env ''link'' attrs linkname, st')
           else (case format_page_name env node of
                   Inl e \<Rightarrow> Inl e
                 | Inr page_name \<Rightarrow>
                     if \<not> pluralize
                     then Inr (build_xml_tag env ''link'' attrs (Some page_name), st')
                     else Inr (build_xml_tag env ''link'' attrs (Some (page_name @ ''s'')), st'))))"

fun format_xref :: "env \<Rightarrow> state \<Rightarrow> node option \<Rightarrow> bool \<Rightarrow> string option
    \<Rightarrow> (string \<times> string) list \<Rightarrow> error + (string \<times> state)" where
  "format_xref env st None pluralize linkname attrdict =
     Inr (build_xml_tag env ''link'' ((''xref'', ''index'') # attrdict) linkname, st)"
| "format_xref env st (Some (Node kind name nspace parent chain shadows props sigs))
       pluralize linkname attrdict =
     (let node = Node kind name nspace parent chain shadows props sigs in
      case nspace of
        None \<Rightarrow>
          Inr (build_xml_tag env ''link'' ((''xref'', ''index'') # attrdict) linkname, st)
      | Some ns \<Rightarrow>
          if kind = Member \<and> (\<not> link_to_gtk_doc env \<or> ns = Some (transformer_namespace env))
          then (case format_xref env st parent pluralize linkname attrdict of
                  Inl e \<Rightarrow> Inl e
                | Inr (link, st') \<Rightarrow> Inr (link @ ''.'' @ name, st'))
          else if ns = Some (transformer_namespace env)
          then (case format_internal_xref env node attrdict linkname pluralize of
                  Inl e \<Rightarrow> Inl e
                | Inr link \<Rightarrow> Inr (link, st))
          else format_external_xref env st node attrdict linkname pluralize)"

section \<open>Implicit links\<close>

fun collect_links :: "env \<Rightarrow> state \<Rightarrow> string list \<Rightarrow> (string \<times> string) list
    \<Rightarrow> error + ((string \<times> string) list \<times> state)" where
  "collect_links env st [] implicit_links = Inr (implicit_links, st)"
| "collect_links env st (word # s) implicit_links =
     (if word = [] then collect_links env st s implicit_links
      else (case resolve_type env word of
              Inl e \<Rightarrow> Inl e
            | Inr type \<Rightarrow>
                (case resolve_symbol env word of
                   Inl e \<Rightarrow> Inl e
                 | Inr symbol \<Rightarrow>
                     (case (if type \<noteq> None then type else symbol) of
                        None \<Rightarrow> collect_links env st s implicit_links
                      | Some node \<Rightarrow>
                          (case format_xref env st (Some node) False (Some word) [] of
                             Inl e \<Rightarrow> Inl e
                           | Inr (xref, st') \<Rightarrow>
                               collect_links env st' s (AList.update word xref implicit_links))))))"

definition resolve_implicit_links :: "env \<Rightarrow> state \<Rightarrow> string \<Rightarrow> error + (string \<times> state)" where
  "resolve_implicit_links env st text =
     (let match = escape text in
      if \<not> opt_resolve_implicit_links env then Inr (match, st)
      else (case collect_links env st (re_split is_word_sep match) [] of
              Inl e \<Rightarrow> Inl e
            | Inr (implicit_links, st') \<Rightarrow>
                Inr (fold (\<lambda>(word, xref) match. py_replace match word xref)
                       (iteritems env implicit_links) match, st')))"

section \<open>The token handlers\<close>

text \<open>
  What a handler returns is a string; the model keeps the pieces it is put together from, so
  that the tags \<open><section>\<close> and \<open></section>\<close> the formatter itself writes are told from
  text that only reads the same.  \<open>render\<close> gives the string.
\<close>

datatype emission = Text string | SectionOpen | SectionClose

fun render1 :: "emission \<Rightarrow> string" where
  "render1 (Text s) = s"
| "render1 SectionOpen = ''<section>''"
| "render1 SectionClose = ''</section>''"

definition render :: "emission list \<Rightarrow> string" where
  "render out = concat (map render1 out)"

type_synonym handled = "error + (emission list \<times> state)"

text \<open>
  \<open>props[key]\<close> where a string is needed: a TypeError for \<open>props\<close> that is \<open>None\<close>, a KeyError
  for a missing key; the value \<open>None\<close> (a group that took no part) fails where it is used as
  a string, given here as a TypeError.
\<close>

definition prop_str :: "props option \<Rightarrow> string \<Rightarrow> error + string" where
  "prop_str props key =
     (case props of
        None \<Rightarrow> Inl TypeError
      | Some d \<Rightarrow>
          (case map_of d key of
             None \<Rightarrow> Inl KeyError
           | Some None \<Rightarrow> Inl TypeError
           | Some (Some v) \<Rightarrow> Inr v))"

definition prop_get :: "props option \<Rightarrow> string \<Rightarrow> error + string option" where
  "prop_get props key =
     (case props of
        None \<Rightarrow> Inl TypeError
      | Some d \<Rightarrow> dict_get d key)"

definition text_of :: "error + (string \<times> state) \<Rightarrow> handled" where
  "text_of r = (case r of Inl e \<Rightarrow> Inl e | Inr (s, st) \<Rightarrow> Inr ([Text s], st))"

definition process_other :: "env \<Rightarrow> state \<Rightarrow> string \<Rightarrow> handled" where
  "process_other env st match = text_of (resolve_implicit_links env st match)"

text \<open>\<open>_find_thing\<close>: the first item of that name, or a KeyError.\<close>

definition find_thing :: "node list \<Rightarrow> string \<Rightarrow> error + node" where
  "find_thing list name =
     (case find (\<lambda>item. n_name item = name) list of
        None \<Rightarrow> Inl KeyError
      | Some item \<Rightarrow> Inr item)"

definition process_property :: "env \<Rightarrow> state \<Rightarrow> string \<Rightarrow> props option \<Rightarrow> handled" where
  "process_property env st match props =
     (case prop_str props ''type_name'' of
        Inl e \<Rightarrow> Inl e
      | Inr type_name \<Rightarrow>
          (case resolve_type env type_name of
             Inl e \<Rightarrow> Inl e
           | Inr None \<Rightarrow> Inr ([Text match], st)
           | Inr (Some type_node) \<Rightarrow>
               (case n_properties type_node of
                  None \<Rightarrow> Inr ([Text match], st)
                | Some properties \<Rightarrow>
                    (case prop_get props ''property_name'' of
                       Inl e \<Rightarrow> (if e = KeyError then Inr ([Text match], st) else Inl e)
                     | Inr None \<Rightarrow> Inr ([Text match], st)
                     | Inr (Some property_name) \<Rightarrow>
                         (case find_thing properties property_name of
                            Inl e \<Rightarrow> Inr ([Text match], st)
                          | Inr prop \<Rightarrow>
                              text_of (format_xref env st (Some prop) False
                                         (Some property_name) []))))))"

definition process_signal :: "env \<Rightarrow> state \<Rightarrow> string \<Rightarrow> props option \<Rightarrow> handled" where
  "process_signal env st match props =
     (case prop_str props ''type_name'' of
        Inl e \<Rightarrow> Inl e
      | Inr type_name \<Rightarrow>
          (case resolve_type env type_name of
             Inl e \<Rightarrow> Inl e
           | Inr None \<Rightarrow> Inr ([Text match], st)
           | Inr (Some type_node) \<Rightarrow>
               (case n_signals type_node of
                  None \<Rightarrow> Inr ([Text match], st)
                | Some signals \<Rightarrow>
                    (case prop_get props ''signal_name'' of
                       Inl e \<Rightarrow> (if e = KeyError then Inr ([Text match], st) else Inl e)
                     | Inr None \<Rightarrow> Inr ([Text match], st)
                     | Inr (Some signal_name) \<Rightarrow>
                         (case find_thing signals signal_name of
                            Inl e \<Rightarrow> Inr ([Text match], st)
                          | Inr signal \<Rightarrow>
                              text_of (format_xref env st (Some signal) False None []))))))"

definition process_type_name :: "env \<Rightarrow> state \<Rightarrow> string \<Rightarrow> props option \<Rightarrow> handled" where
  "process_type_name env st match props =
     (case prop_str props ''type_name'' of
        Inl e \<Rightarrow> Inl e
      | Inr ident \<Rightarrow>
          (case resolve_type env ident of
             Inl e \<Rightarrow> Inl e
           | Inr (Some type) \<Rightarrow> text_of (format_xref env st (Some type) False None [])
           | Inr None \<Rightarrow>
               (let singularized = rstrip_chars (\<lambda>c. c = CHR ''s'') ident in
                case resolve_type env singularized of
                  Inl e \<Rightarrow> Inl e
                | Inr None \<Rightarrow> Inr ([Text match], st)
                | Inr (Some type) \<Rightarrow> text_of (format_xref env st (Some type) True None []))))"

definition process_enum_value :: "env \<Rightarrow> state \<Rightarrow> string \<Rightarrow> props option \<Rightarrow> handled" where
  "process_enum_value env st match props =
     (case prop_str props ''member_name'' of
        Inl e \<Rightarrow> Inl e
      | Inr member_name \<Rightarrow>
          (case map_of (fundamentals env) member_name of
             Some v \<Rightarrow> Inr ([Text (''<code>'' @ v @ ''</code>'')], st)
           | None \<Rightarrow>
               (case resolve_symbol env member_name of
                  Inl e \<Rightarrow> Inl e
                | Inr (Some enum_value) \<Rightarrow>
                    text_of (format_xref env st (Some enum_value) False None [])
                | Inr None \<Rightarrow> Inr ([Text match], st))))"

definition format_parameter_name :: "node \<Rightarrow> parameter \<Rightarrow> string" where
  "format_parameter_name node parameter =
     (if is_varargs parameter then ''...'' else argname parameter)"

definition process_parameter :: "env \<Rightarrow> state \<Rightarrow> node \<Rightarrow> string \<Rightarrow> props option \<Rightarrow> handled" where
  "process_parameter env st node match props =
     (case get_parameter env node of
        None \<Rightarrow> Inr ([Text match], st)
      | Some lookup \<Rightarrow>
          (case prop_str props ''param_name'' of
             Inl e \<Rightarrow> Inl e
           | Inr param_name \<Rightarrow>
               (case lookup param_name of
                  Inl e \<Rightarrow> (if e = AttributeError \<or> e = ValueError
                             then Inr ([Text match], st) else Inl e)
                | Inr parameter \<Rightarrow>
                    Inr ([Text (''<code>'' @ format_parameter_name node parameter @ ''</code>'')],
                         st))))"

definition process_function_call :: "env \<Rightarrow> state \<Rightarrow> string \<Rightarrow> props option \<Rightarrow> handled" where
  "process_function_call env st match props =
     (case prop_str props ''symbol_name'' of
        Inl e \<Rightarrow> Inl e
      | Inr symbol_name \<Rightarrow>
          (case resolve_symbol env symbol_name of
             Inl e \<Rightarrow> Inl e
           | Inr None \<Rightarrow> Inr ([Text match], st)
           | Inr (Some func) \<Rightarrow> text_of (format_xref env st (Some func) False None [])))"

definition process_code_start :: "state \<Rightarrow> handled" where
  "process_code_start st = Inr ([Text ''</p><code>''], st \<lparr> processing_code := True \<rparr>)"

definition process_code_start_with_language :: "state \<Rightarrow> props option \<Rightarrow> handled" where
  "process_code_start_with_language st props =
     (case prop_str props ''language_name'' of
        Inl e \<Rightarrow> Inl e
      | Inr language_name \<Rightarrow>
          (case dict_get language_mimes (lower language_name) of
             Inl e \<Rightarrow> Inl e
           | Inr mime \<Rightarrow>
               if mime = [] then Inr ([Text ''</p><code>''], st \<lparr> processing_code := True \<rparr>)
               else Inr ([Text (''</p><code mime='' @ [CHR 0x22] @ mime @ [CHR 0x22] @ ''>'')],
                         st \<lparr> processing_code := True \<rparr>)))"

definition process_code_end :: "state \<Rightarrow> handled" where
  "process_code_end st = Inr ([Text ''</code><p>''], st \<lparr> processing_code := False \<rparr>)"

definition process_new_line :: "state \<Rightarrow> handled" where
  "process_new_line st = Inr ([Text [CHR 0x0A]], st)"

definition process_new_paragraph :: "state \<Rightarrow> handled" where
  "process_new_paragraph st =
     (if processing_code st then Inr ([Text [CHR 0x0A, CHR 0x0A]], st)
      else Inr ([Text ''</p><p>''], st))"

definition process_note :: "state \<Rightarrow> string \<Rightarrow> props option \<Rightarrow> handled" where
  "process_note st match props =
     (if processing_code st then Inr ([Text match], st)
      else (case prop_str props ''note_contents'' of
              Inl e \<Rightarrow> Inl e
            | Inr note_contents \<Rightarrow>
                Inr ([Text (''</p><note><p>'' @ note_contents @ ''</p></note><p>'')], st)))"

text \<open>The three loops of \<open>_process_heading\<close>.\<close>

function header_level_loop :: "string \<Rightarrow> nat \<Rightarrow> error + nat" where
  "header_level_loop match header_level =
     (if length match \<le> header_level then Inl IndexError
      else if match ! header_level = CHR ''#''
      then header_level_loop match (header_level + 1)
      else Inr header_level)"
  by pat_completeness auto
termination
  by (relation "measure (\<lambda>(match, header_level). length match - header_level)") auto

declare header_level_loop.simps [simp del]

function close_sections :: "int \<Rightarrow> int \<Rightarrow> emission list \<times> int" where
  "close_sections opened header_level =
     (if opened \<ge> header_level
      then (case close_sections (opened - 1) header_level of
              (result, opened') \<Rightarrow> (SectionClose # result, opened'))
      else ([], opened))"
  by pat_completeness auto
termination
  by (relation "measure (\<lambda>(opened, header_level). nat (opened - header_level + 1))") auto

declare close_sections.simps [simp del]

function open_sections :: "int \<Rightarrow> int \<Rightarrow> emission list \<times> int" where
  "open_sections opened header_level =
     (if opened < header_level
      then (case open_sections (opened + 1) header_level of
              (result, opened') \<Rightarrow> (SectionOpen # result, opened'))
      else ([], opened))"
  by pat_completeness auto
termination
  by (relation "measure (\<lambda>(opened, header_level). nat (header_level - opened))") auto

declare open_sections.simps [simp del]

definition process_heading :: "state \<Rightarrow> string \<Rightarrow> props option \<Rightarrow> handled" where
  "process_heading st match props =
     (if processing_code st then Inr ([Text match], st)
      else (case header_level_loop (strip_chars (\<lambda>c. c = CHR 0x0A) match) 0 of
              Inl e \<Rightarrow> Inl e
            | Inr header_level \<Rightarrow>
                (case close_sections (opened_sections st) (int header_level) of
                   (closes, opened1) \<Rightarrow>
                     (case open_sections opened1 (int header_level) of
                        (opens, opened2) \<Rightarrow>
                          (case prop_str props ''heading'' of
                             Inl e \<Rightarrow> Inl e
                           | Inr heading \<Rightarrow>
                               Inr (Text ''</p>'' # closes @ opens
                                      @ [Text (''<title>'' @ heading @ ''</title><p>'')],
                                    st \<lparr> opened_sections := opened2 \<rparr>))))))"

text \<open>
  \<open>_process_include\<close>: the file itself, then the include directories in order.  \<open>nested\<close>
  is the call of \<open>format_inline\<close> on the contents.
\<close>

fun open_in_directories :: "env \<Rightarrow> string list \<Rightarrow> string \<Rightarrow> string option" where
  "open_in_directories env [] filename = None"
| "open_in_directories env (dir # dirs) filename =
     (case fs_open env (path_join env dir filename) of
        Some contents \<Rightarrow> Some contents
      | None \<Rightarrow> open_in_directories env dirs filename)"

definition open_include :: "env \<Rightarrow> string \<Rightarrow> string option" where
  "open_include env filename =
     (case fs_open env filename of
        Some contents \<Rightarrow> Some contents
      | None \<Rightarrow> open_in_directories env (include_directories env) filename)"

definition process_include :: "(state \<Rightarrow> string \<Rightarrow> handled option) \<Rightarrow> env \<Rightarrow> state \<Rightarrow> string
    \<Rightarrow> props option \<Rightarrow> handled option" where
  "process_include nested env st match props =
     (case prop_str props ''include_name'' of
        Inl e \<Rightarrow> Some (Inl e)
      | Inr include_name \<Rightarrow>
          (case open_include env (py_strip include_name) of
             Some contents \<Rightarrow>
               if processing_code st
               then Some (text_of (resolve_implicit_links env st contents))
               else nested st contents
           | None \<Rightarrow>
               Some (Inr ([Text match],
                          message_warn (''Could not find file '' @ include_name) st))))"

text \<open>\<open>_process_token\<close>: the dispatch on the kind; a kind not in the table is a KeyError.\<close>

definition process_token :: "(state \<Rightarrow> string \<Rightarrow> handled option) \<Rightarrow> env \<Rightarrow> state \<Rightarrow> node
    \<Rightarrow> token \<Rightarrow> handled option" where
  "process_token nested env st node tok =
     (case tok of (kind, match, props) \<Rightarrow>
        if kind = ''other'' then Some (process_other env st match)
        else if kind = ''property'' then Some (process_property env st match props)
        else if kind = ''signal'' then Some (process_signal env st match props)
        else if kind = ''type_name'' then Some (process_type_name env st match props)
        else if kind = ''enum_value'' then Some (process_enum_value env st match props)
        else if kind = ''parameter'' then Some (process_parameter env st node match props)
        else if kind = ''function_call'' then Some (process_function_call env st match props)
        else if kind = ''code_start'' then Some (process_code_start st)
        else if kind = ''code_start_with_language''
          then Some (process_code_start_with_language st props)
        else if kind = ''code_end'' then Some (process_code_end st)
        else if kind = ''new_line'' then Some (process_new_line st)
        else if kind = ''new_paragraph'' then Some (process_new_paragraph st)
        else if kind = ''include'' then process_include nested env st match props
        else if kind = ''note'' then Some (process_note st match props)
        else if kind = ''heading'' then Some (process_heading st match props)
        else Some (Inl KeyError))"

text \<open>The list comprehension of \<open>format_inline\<close> and the join of its words.\<close>

fun process_tokens :: "(state \<Rightarrow> string \<Rightarrow> handled option) \<Rightarrow> env \<Rightarrow> state \<Rightarrow> node
    \<Rightarrow> token list \<Rightarrow> handled option" where
  "process_tokens nested env st node [] = Some (Inr ([], st))"
| "process_tokens nested env st node (tok # tokens) =
     (case process_token nested env st node tok of
        None \<Rightarrow> None
      | Some (Inl e) \<Rightarrow> Some (Inl e)
      | Some (Inr (word, st')) \<Rightarrow>
          (case process_tokens nested env st' node tokens of
             None \<Rightarrow> None
           | Some (Inl e) \<Rightarrow> Some (Inl e)
           | Some (Inr (words, st'')) \<Rightarrow> Some (Inr (word @ words, st''))))"

text \<open>
  \<open>format_inline\<close>.  An included file may include itself; Python then stops with a
  RuntimeError when its stack is full.  \<open>depth\<close> is the number of nested calls the stack
  still has room for.
\<close>

fun format_inline :: "nat \<Rightarrow> env \<Rightarrow> state \<Rightarrow> node \<Rightarrow> string \<Rightarrow> handled option" where
  "format_inline 0 env st node para = Some (Inl RuntimeError)"
| "format_inline (Suc depth) env st node para =
     (case docstring_regex of
        Inl e \<Rightarrow> Some (Inl e)
      | Inr rx \<Rightarrow>
          (case scan rx para of
             None \<Rightarrow> None
           | Some (Inl e) \<Rightarrow> Some (Inl e)
           | Some (Inr tokens) \<Rightarrow>
               process_tokens (\<lambda>st' contents. format_inline depth env st' node contents)
                 env st node tokens))"

section \<open>format\<close>

function close_all :: "int \<Rightarrow> emission list \<times> int" where
  "close_all opened =
     (if opened > 0
      then (case close_all (opened - 1) of
              (result, opened') \<Rightarrow> (SectionClose # result, opened'))
      else ([], opened))"
  by pat_completeness auto
termination
  by (relation "measure nat") auto

declare close_all.simps [simp del]

definition format_emissions :: "nat \<Rightarrow> env \<Rightarrow> state \<Rightarrow> node \<Rightarrow> string option \<Rightarrow> handled option" where
  "format_emissions depth env st node doc =
     (case doc of
        None \<Rightarrow> Some (Inr ([], st))
      | Some text \<Rightarrow>
          (let processing_code = processing_code st in
           case format_inline depth env st node text of
             None \<Rightarrow> None
           | Some (Inl e) \<Rightarrow> Some (Inl e)
           | Some (Inr (inline, st')) \<Rightarrow>
               (case close_all (opened_sections st') of
                  (closes, opened) \<Rightarrow>
                    Some (Inr ((if \<not> processing_code then [Text ''<p>''] else [])
                               @ inline
                               @ (if \<not> processing_code then [Text ''</p>''] else [])
                               @ closes,
                               st' \<lparr> opened_sections := opened \<rparr>)))))"

text \<open>\<open>format(node, doc)\<close>: the string returned, and the formatter's attributes after it.\<close>

definition format :: "nat \<Rightarrow> env \<Rightarrow> state \<Rightarrow> node \<Rightarrow> string option
    \<Rightarrow> (error + (string \<times> state)) option" where
  "format depth env st node doc =
     map_option (map_sum id (\<lambda>(out, st'). (render out, st')))
       (format_emissions depth env st node doc)"

section \<open>A small namespace for the examples\<close>

text \<open>
  A formatter for the namespace \<open>Gtk\<close> with one class, \<open>Widget\<close>, and one function,
  \<open>gtk_widget_show\<close>; no include file opens.  Tags are written as \<open>xmlwriter\<close> writes them.
\<close>

definition gtk :: namespace where
  "gtk = \<lparr> ns_name = ''Gtk'', ns_version = ''3.0'', exported_packages = [''gtk+-3.0''] \<rparr>"

definition widget :: node where
  "widget = Node Class ''Widget'' (Some (Some gtk)) None [] None (Some []) (Some [])"

definition widget_show :: node where
  "widget_show = Node Function ''widget_show'' (Some (Some gtk)) None [] None None None"

definition xml_attrs :: "(string \<times> string) list \<Rightarrow> string" where
  "xml_attrs attrs =
     concat (map (\<lambda>(k, v). '' '' @ k @ ''='' @ [CHR 0x22] @ v @ [CHR 0x22]) attrs)"

definition example_env :: env where
  "example_env =
     \<lparr> online = False, link_to_gtk_doc = False, opt_resolve_implicit_links = True,
       transformer_namespace = gtk,
       split_ctype_namespaces =
         (\<lambda>ident. if startswith ident ''Gtk'' then Inr [(gtk, drop 3 ident)]
                  else Inl ValueError),
       split_csymbol_namespaces =
         (\<lambda>symbol. if startswith symbol ''gtk_'' then Inr [(gtk, drop 4 symbol)]
                   else Inl ValueError),
       ns_get = (\<lambda>ns name. if name = ''Widget'' then Some widget
                            else if name = ''widget_show'' then Some widget_show else None),
       ns_get_by_symbol =
         (\<lambda>ns symbol. if symbol = ''gtk_widget_show'' then Some widget_show else None),
       get_parameter = (\<lambda>node. None),
       include_directories = [],
       fs_open = (\<lambda>path. None),
       path_join = (\<lambda>a b. a @ ''/'' @ b),
       reference_map = [],
       fundamentals = [(''TRUE'', ''TRUE''), (''FALSE'', ''FALSE''), (''NULL'', ''NULL'')],
       format_function_name = (\<lambda>node. Inr (n_name node)),
       make_gtkdoc_id = (\<lambda>node. n_name node),
       strip_version = (\<lambda>package. package),
       build_xml_tag =
         (\<lambda>tag attrs data. ''<'' @ tag @ xml_attrs attrs @
            (case data of None \<Rightarrow> ''/>'' | Some d \<Rightarrow> ''>'' @ d @ ''</'' @ tag @ ''>'')),
       iteritems = (\<lambda>d. d) \<rparr>"

section \<open>Notions the properties are stated with\<close>

text \<open>What \<open>escape\<close> writes for one character.\<close>

definition escape_char :: "char \<Rightarrow> string" where
  "escape_char c = (if c = CHR ''&'' then ''&amp;'' else if c = CHR ''>'' then ''&gt;''
                    else if c = CHR ''<'' then ''&lt;'' else [c])"

text \<open>The least number of characters a pattern takes.\<close>

fun min_length :: "re_item list \<Rightarrow> nat" where
  "min_length [] = 0"
| "min_length (Lit c # r) = Suc (min_length r)"
| "min_length (Rep c mn # r) = mn + min_length r"
| "min_length (Open nm # r) = min_length r"
| "min_length (Close # r) = min_length r"

text \<open>The text of a token.\<close>

definition tok_text :: "token \<Rightarrow> string" where
  "tok_text tok = fst (snd tok)"

text \<open>The alternatives of the expression of \<open>DocstringScanner\<close>.\<close>

definition docstring_alternatives :: regex where
  "docstring_alternatives = (case docstring_regex of Inl e \<Rightarrow> [] | Inr rx \<Rightarrow> rx)"

text \<open>No alternative of the expression matches the empty string.\<close>

definition nonempty_matches :: "regex \<Rightarrow> bool" where
  "nonempty_matches rx = (rx \<noteq> [] \<and> list_all (\<lambda>(name, spec). 1 \<le> min_length spec) rx)"

text \<open>A text and its tokens.\<close>

definition example_text :: string where
  "example_text = ''Call foo_bar() to start.''"

definition example_tokens :: "token list" where
  "example_tokens =
     [(''other'', ''Call '', None),
      (''function_call'', ''foo_bar()'',
         Some [(''function_call'', Some ''foo_bar()''), (''symbol_name'', Some ''foo_bar'')]),
      (''other'', '' to start.'', None)]"

text \<open>Code blocks with a language tag, and the output for one heading.\<close>

definition rust_block :: string where
  "rust_block = ''|[<!-- language='' @ [CHR 0x22] @ ''rust'' @ [CHR 0x22] @ '' -->''"

definition python_block :: string where
  "python_block = ''|[<!-- language='' @ [CHR 0x22] @ ''Python'' @ [CHR 0x22] @ '' -->''"

definition one_heading :: "emission list" where
  "one_heading = [Text ''<p>'', Text ''</p>'', SectionOpen, Text ''<title>T</title><p>'',
                  Text ''</p>'', SectionClose]"

text \<open>Every group of a pattern is closed, \<open>n\<close> groups being open before it.\<close>

fun closes_groups :: "re_item list \<Rightarrow> nat \<Rightarrow> bool" where
  "closes_groups [] n = (n = 0)"
| "closes_groups (Open nm # r) n = closes_groups r (Suc n)"
| "closes_groups (Close # r) n = (case n of 0 \<Rightarrow> False | Suc k \<Rightarrow> closes_groups r k)"
| "closes_groups (x # r) n = closes_groups r n"

text \<open>The named groups that are open.\<close>

definition stack_names :: "(string option \<times> nat) list \<Rightarrow> string set" where
  "stack_names stk = {n. Some n \<in> fst ` set stk}"

text \<open>
  The groups of an expression have different names, every group is closed, and a group
  inside the alternative \<open>name\<close> is called \<open>name_...\<close>.
\<close>

definition well_named :: "regex \<Rightarrow> bool" where
  "well_named rx =
     (distinct (all_groups rx)
      \<and> list_all (\<lambda>(name, spec). closes_groups spec 0
                     \<and> list_all (\<lambda>g. startswith g (name @ ''_'')) (group_names spec)) rx)"





text \<open>The attributes of the formatter that its output depends on.\<close>

definition core :: "state \<Rightarrow> bool \<times> int" where
  "core st = (processing_code st, opened_sections st)"

text \<open>Sections opened less sections closed.\<close>

definition net :: "emission list \<Rightarrow> int" where
  "net out = int (count_list out SectionOpen) - int (count_list out SectionClose)"

text \<open>
  The emissions take the depth from \<open>d\<close> to \<open>d'\<close>, and after none of them is the
  depth negative.
\<close>

definition tracks :: "int \<Rightarrow> emission list \<Rightarrow> int \<Rightarrow> bool" where
  "tracks d out d' = (d + net out = d' \<and> (\<forall>n. 0 \<le> d + net (take n out)))"

text \<open>An emission that is no section tag.\<close>

definition is_text :: "emission \<Rightarrow> bool" where
  "is_text e = (case e of Text s \<Rightarrow> True | _ \<Rightarrow> False)"

text \<open>A result without the warnings.\<close>

definition view :: "error + ('a \<times> state) \<Rightarrow> error + ('a \<times> bool \<times> int)" where
  "view r = map_sum id (\<lambda>(x, st). (x, core st)) r"

text \<open>A handler that writes text only and leaves the depth as it is.\<close>

definition quiet :: "state \<Rightarrow> handled \<Rightarrow> bool" where
  "quiet st r = (case r of Inl e \<Rightarrow> True
                 | Inr (out, st') \<Rightarrow> list_all is_text out \<and> opened_sections st' = opened_sections st)"

text \<open>A heading token starts with \<open>#\<close>, as the scanner makes it.\<close>

definition wf_token :: "token \<Rightarrow> bool" where
  "wf_token tok = (case tok of (kind, match, props) \<Rightarrow>
                     kind = ''heading'' \<longrightarrow> match \<noteq> [] \<and> hd match = CHR ''#'')"

text \<open>A pattern that starts with \<open>#+\<close>.\<close>

definition starts_with_hash :: "re_item list \<Rightarrow> bool" where
  "starts_with_hash spec = (case spec of
                              Rep (Only c) (Suc n) # r \<Rightarrow> c = CHR ''#''
                            | _ \<Rightarrow> False)"

text \<open>The nested call of \<open>format_inline\<close> keeps the depth and the emissions together.\<close>

definition nested_tracks :: "(state \<Rightarrow> string \<Rightarrow> handled option) \<Rightarrow> bool" where
  "nested_tracks nested =
     (\<forall>st contents out st'. nested st contents = Some (Inr (out, st')) \<longrightarrow> 0 \<le> opened_sections st
         \<longrightarrow> tracks (opened_sections st) out (opened_sections st'))"

text \<open>A document whose headings skip a level, and what is written for it.\<close>

definition skipping_doc :: string where
  "skipping_doc = ''# A'' @ [CHR 0x0A] @ ''### B''"

definition skipping_out :: "emission list" where
  "skipping_out =
     [Text ''<p>'', Text ''</p>'', SectionOpen, Text ''<title>A</title><p>'', Text [CHR 0x0A],
      Text ''</p>'', SectionOpen, SectionOpen, Text ''<title>B</title><p>'', Text ''</p>'',
      SectionClose, SectionClose, SectionClose]"

text \<open>The nested call of \<open>format_inline\<close> gives the same for states with the same core.\<close>

definition nested_same :: "(state \<Rightarrow> string \<Rightarrow> handled option) \<Rightarrow> bool" where
  "nested_same nested =
     (\<forall>st1 st2 contents. core st1 = core st2
        \<longrightarrow> map_option view (nested st1 contents) = map_option view (nested st2 contents))"

text \<open>The formatter after the document \<open>|[\<close>, and after a document whose include is not found.\<close>

definition after_code_start :: state where
  "after_code_start = init_state \<lparr> processing_code := True \<rparr>"

definition after_missing_include :: state where
  "after_missing_include = init_state \<lparr> warnings := [''Could not find file a.txt ''] \<rparr>"

section \<open>Identifiers no namespace claims\<close>

text \<open>
  C9.  An identifier that cannot be split into any (namespace, local name) candidate, for
  which the transformer raises ValueError, is not found: both \<open>_resolve_type\<close> and
  \<open>_resolve_symbol\<close> return \<open>None\<close> and raise nothing.
\<close>

theorem resolve_unsplittable_not_found:
  "(split_ctype_namespaces env ident = Inl ValueError \<longrightarrow> resolve_type env ident = Inr None)
   \<and> (split_csymbol_namespaces env symbol = Inl ValueError
        \<longrightarrow> resolve_symbol env symbol = Inr None)"
  by (simp add: resolve_type_def resolve_symbol_def)

theorem resolve_unsplittable_not_found_witness:
  "split_ctype_namespaces example_env ''Foo'' = Inl ValueError
   \<and> resolve_type example_env ''Foo'' = Inr None
   \<and> split_csymbol_namespaces example_env ''foo_bar'' = Inl ValueError
   \<and> resolve_symbol example_env ''foo_bar'' = Inr None"
proof -
  have a: "split_ctype_namespaces example_env ''Foo'' = Inl ValueError"
    by (simp add: example_env_def startswith_def)
  have b: "split_csymbol_namespaces example_env ''foo_bar'' = Inl ValueError"
    by (simp add: example_env_def startswith_def)
  from a b resolve_unsplittable_not_found [of example_env "''Foo''" "''foo_bar''"]
  show ?thesis by simp
qed

section \<open>Escaping\<close>

lemma py_replace_char:
  "py_replace s [c] new = concat (map (\<lambda>x. if x = c then new else [x]) s)"
  by (induction s) (simp_all add: startswith_def)

lemma concat_map_concat_map:
  "concat (map g (concat (map f xs))) = concat (map (\<lambda>x. concat (map g (f x))) xs)"
  by (induction xs) simp_all

lemma escape_chars: "escape s = concat (map escape_char s)"
  unfolding escape_def py_replace_char concat_map_concat_map
  by (rule arg_cong [where f = concat], rule map_cong) (auto simp: escape_char_def)

lemma escape_length: "length s \<le> length (escape s)"
  unfolding escape_chars by (induction s) (auto simp: escape_char_def)

lemma escape_length_amp: "CHR ''&'' \<in> set s \<Longrightarrow> length s < length (escape s)"
  unfolding escape_chars
proof (induction s)
  case Nil then show ?case by simp
next
  case (Cons a s)
  have le: "length s \<le> length (concat (map escape_char s))"
    using escape_length [of s] by (simp add: escape_chars)
  show ?case
  proof (cases "a = CHR ''&''")
    case True
    then have "escape_char a = ''&amp;''" by (simp add: escape_char_def)
    with le show ?thesis by simp
  next
    case False
    with Cons have "length s < length (concat (map escape_char s))" by simp
    moreover have "1 \<le> length (escape_char a)" by (simp add: escape_char_def)
    ultimately show ?thesis by (simp del: length_greater_0_conv)
  qed
qed

lemma escape_has_amp:
  "set s \<inter> {CHR ''&'', CHR ''<'', CHR ''>''} \<noteq> {} \<Longrightarrow> CHR ''&'' \<in> set (escape s)"
  unfolding escape_chars by (induction s) (auto simp: escape_char_def)

lemma escape_plain: "set s \<inter> {CHR ''&'', CHR ''<'', CHR ''>''} = {} \<Longrightarrow> escape s = s"
  unfolding escape_chars by (induction s) (auto simp: escape_char_def)

text \<open>
  C7, as the code has it.  \<open>escape\<close> is \<open>saxutils.escape\<close>, which escapes every \<open>&\<close> it is
  given, also the one of an entity it wrote itself: escaping twice gives the text escaped
  once exactly when the text has none of the characters \<open>&\<close>, \<open><\<close> and \<open>>\<close>.
\<close>

theorem escape_idempotent_iff:
  "(escape (escape t) = escape t) = (set t \<inter> {CHR ''&'', CHR ''<'', CHR ''>''} = {})"
proof
  assume eq: "escape (escape t) = escape t"
  show "set t \<inter> {CHR ''&'', CHR ''<'', CHR ''>''} = {}"
  proof (rule ccontr)
    assume "set t \<inter> {CHR ''&'', CHR ''<'', CHR ''>''} \<noteq> {}"
    then have "CHR ''&'' \<in> set (escape t)" by (rule escape_has_amp)
    then have "length (escape t) < length (escape (escape t))" by (rule escape_length_amp)
    with eq show False by simp
  qed
next
  assume "set t \<inter> {CHR ''&'', CHR ''<'', CHR ''>''} = {}"
  then show "escape (escape t) = escape t" by (simp add: escape_plain)
qed

text \<open>The claim as written fails on the text \<open><\<close>: escaped twice it is \<open>&amp;lt;\<close>.\<close>

theorem escape_twice_counterexample:
  "escape (escape ''<'') = ''&amp;lt;'' \<and> escape ''<'' = ''&lt;''
   \<and> escape (escape ''<'') \<noteq> escape ''<''"
  by (simp add: escape_def startswith_def)

section \<open>The scanner\<close>

lemma backtrack_Some:
  "backtrack f n mn = Some r \<Longrightarrow> \<exists>k. mn \<le> k \<and> k \<le> n \<and> f k = Some r"
proof (induction n)
  case 0
  then show ?case by (auto split: if_splits)
next
  case (Suc n)
  show ?case
  proof (cases "f (Suc n)")
    case None
    with Suc.prems have "backtrack f n mn = Some r" by (simp split: if_splits)
    from Suc.IH [OF this] show ?thesis by (meson le_Suc_eq)
  next
    case (Some a)
    with Suc.prems have "a = r" "mn \<le> Suc n" by (auto split: if_splits)
    with Some show ?thesis by auto
  qed
qed

lemma run_length_le: "run_length c xs \<le> length xs"
  by (induction xs) auto

lemma rmatch_bounds:
  "rmatch p s i stk caps = Some (e, caps') \<Longrightarrow> i \<le> length s
   \<Longrightarrow> i + min_length p \<le> e \<and> e \<le> length s"
proof (induction p s i stk caps rule: rmatch.induct)
  case (3 c mn r s i stk caps)
  from "3.prems"(1) obtain k where k: "mn \<le> k" "k \<le> run_length c (drop i s)"
      "rmatch r s (i + k) stk caps = Some (e, caps')"
    by (auto dest: backtrack_Some)
  from k(2) run_length_le [of c "drop i s"] "3.prems"(2) have "i + k \<le> length s" by simp
  from "3.IH" [OF k(3) this] k(1) show ?case by simp
qed (auto split: if_splits)

lemma match_alts_Some:
  "match_alts rx alts text pos = Some m \<Longrightarrow> pos \<le> length text \<Longrightarrow>
   \<exists>name spec caps. (name, spec) \<in> set alts \<and> rmatch spec text pos [] [] = Some (m_end m, caps)
     \<and> m_start m = pos \<and> m_lastgroup m = Some name
     \<and> m_groupdict m = map (\<lambda>g. (g, if g = name then Some (slice text pos (m_end m))
                                        else map_of caps g)) (all_groups rx)"
proof (induction alts)
  case Nil
  then show ?case by simp
next
  case (Cons a alts)
  obtain name spec where a: "a = (name, spec)" by (cases a)
  show ?case
  proof (cases "rmatch spec text pos [] []")
    case None
    with Cons a show ?thesis by auto
  next
    case (Some r)
    obtain e caps where r: "r = (e, caps)" by (cases r)
    with Some Cons.prems a have "m = \<lparr> m_start = pos, m_end = e, m_lastgroup = Some name,
                 m_groupdict =
                   map (\<lambda>g. (g, if g = name then Some (slice text pos e) else map_of caps g))
                     (all_groups rx) \<rparr>" by simp
    with Some r a show ?thesis by auto
  qed
qed

lemma search_Some:
  "search rx s pos = Some m \<Longrightarrow>
   pos \<le> m_start m \<and> m_start m \<le> length s
   \<and> (if rx = [] then m_end m = m_start m \<and> m_lastgroup m = None
       else match_alts rx rx s (m_start m) = Some m)"
proof (induction rx s pos rule: search.induct)
  case (1 rx s pos)
  show ?case
  proof (cases "length s < pos")
    case True
    with "1.prems" show ?thesis by (simp add: search.simps [of rx s pos])
  next
    case le: False
    show ?thesis
    proof (cases "rx = []")
      case True
      with le "1.prems" show ?thesis by (auto simp: search.simps [of "[]" s pos])
    next
      case ne: False
      show ?thesis
      proof (cases "match_alts rx rx s pos")
        case None
        with le ne "1.prems" have "search rx s (Suc pos) = Some m"
          by (simp add: search.simps [of rx s pos])
        from "1.IH" [OF le ne None this] ne show ?thesis by auto
      next
        case (Some a)
        with le ne "1.prems" have am: "a = m" by (simp add: search.simps [of rx s pos])
        from match_alts_Some [OF Some] le am have "m_start m = pos" by auto
        with Some am le ne show ?thesis by auto
      qed
    qed
  qed
qed

lemma search_bounds:
  assumes "search rx text pos = Some m"
  shows "pos \<le> m_start m \<and> m_start m \<le> m_end m \<and> m_end m \<le> length text"
proof (cases "rx = []")
  case True
  with search_Some [OF assms] show ?thesis by auto
next
  case False
  with search_Some [OF assms] have s: "pos \<le> m_start m" "m_start m \<le> length text"
    "match_alts rx rx text (m_start m) = Some m" by auto
  from match_alts_Some [OF s(3) s(2)] obtain name spec caps where
    "rmatch spec text (m_start m) [] [] = Some (m_end m, caps)" by auto
  from rmatch_bounds [OF this s(2)] s show ?thesis by auto
qed

lemma slice_append:
  "pos \<le> a \<Longrightarrow> a \<le> b \<Longrightarrow> b \<le> length s
   \<Longrightarrow> slice s pos a @ slice s a b @ drop b s = drop pos s"
proof -
  assume h: "pos \<le> a" "a \<le> b" "b \<le> length s"
  have 1: "take (b - a) (drop a s) @ drop b s = drop a s"
    using h by (metis append_take_drop_id drop_drop le_add_diff_inverse2)
  have 2: "take (a - pos) (drop pos s) @ drop a s = drop pos s"
    using h by (metis append_take_drop_id drop_drop le_add_diff_inverse2)
  show ?thesis unfolding slice_def using 1 2 by simp
qed

lemma scan_loop_lossless:
  assumes "scan_loop rx s pos = Some r"
  shows "\<forall>toks. r = Inr toks \<longrightarrow> pos \<le> length s \<longrightarrow> concat (map tok_text toks) = drop pos s"
proof (rule scan_loop.raw_induct [where P = "\<lambda>rx s pos r. \<forall>toks. r = Inr toks \<longrightarrow> pos \<le> length s
           \<longrightarrow> concat (map tok_text toks) = drop pos s", OF _ assms])
  fix loop :: "regex \<Rightarrow> string \<Rightarrow> nat \<Rightarrow> (error + token list) option"
    and rx s pos r
  assume IH: "\<And>rx s pos r. loop rx s pos = Some r \<Longrightarrow>
     \<forall>toks. r = Inr toks \<longrightarrow> pos \<le> length s \<longrightarrow> concat (map tok_text toks) = drop pos s"
  assume body: "(case search rx s pos of
      None \<Rightarrow> Some (Inr (if pos < length s then [(''other'', drop pos s, None)] else []))
      | Some m \<Rightarrow>
          (case get_properties (m_lastgroup m) m of Inl e \<Rightarrow> Some (Inl e)
          | Inr properties \<Rightarrow>
              Option.bind (loop rx s (m_end m))
               (\<lambda>rest. Some (case rest of Inl e \<Rightarrow> Inl e
                     | Inr toks \<Rightarrow>
                         Inr ((if pos < m_start m
                               then [(''other'', slice s pos (m_start m), None)] else []) @
                              ((case m_lastgroup m of None \<Rightarrow> [] | Some name \<Rightarrow> name),
                               slice s (m_start m) (m_end m), Some properties) # toks))))) = Some r"
  show "\<forall>toks. r = Inr toks \<longrightarrow> pos \<le> length s \<longrightarrow> concat (map tok_text toks) = drop pos s"
  proof (intro allI impI)
    fix toks assume r: "r = Inr toks" and le: "pos \<le> length s"
    show "concat (map tok_text toks) = drop pos s"
    proof (cases "search rx s pos")
      case None
      with body r le show ?thesis by (auto simp: tok_text_def)
    next
      case (Some m)
      note b = search_bounds [OF Some]
      from body Some r obtain properties where gp: "get_properties (m_lastgroup m) m = Inr properties"
        by (cases "get_properties (m_lastgroup m) m") auto
      from body Some gp obtain rest where rest: "loop rx s (m_end m) = Some rest"
        by (auto simp: bind_eq_Some_conv)
      with body Some gp r obtain toks' where toks': "rest = Inr toks'"
        and toks: "toks = (if pos < m_start m
                            then [(''other'', slice s pos (m_start m), None)] else [])
                           @ ((case m_lastgroup m of None \<Rightarrow> [] | Some name \<Rightarrow> name),
                              slice s (m_start m) (m_end m), Some properties)
                           # toks'"
        by (cases rest) auto
      from IH [OF rest] toks' b have ih: "concat (map tok_text toks') = drop (m_end m) s" by simp
      have e: "pos = m_start m \<Longrightarrow> slice s pos (m_start m) = []" by (simp add: slice_def)
      from slice_append [of pos "m_start m" "m_end m" s] b
      have "slice s pos (m_start m) @ slice s (m_start m) (m_end m) @ drop (m_end m) s = drop pos s"
        by simp
      with ih toks b e show ?thesis by (cases "pos < m_start m") (auto simp: tok_text_def)
    qed
  qed
qed

lemma docstring_regex_eq: "docstring_regex = Inr docstring_alternatives"
  by code_simp

lemma docstring_nonempty_matches: "nonempty_matches docstring_alternatives"
  by code_simp

lemma map_of_tabulate:
  "map_of (map (\<lambda>g. (g, f g)) gs) k = (if k \<in> set gs then Some (f k) else None)"
  by (induction gs) auto

lemma all_groups_name: "(name, spec) \<in> set rx \<Longrightarrow> name \<in> set (all_groups rx)"
  by (force simp: all_groups_def)

lemma search_nonempty:
  assumes "search rx s pos = Some m" and "nonempty_matches rx"
  shows "m_start m < m_end m \<and> (\<exists>props. get_properties (m_lastgroup m) m = Inr props)"
proof -
  from assms(2) have ne: "rx \<noteq> []" by (simp add: nonempty_matches_def)
  with search_Some [OF assms(1)] have s: "m_start m \<le> length s"
    "match_alts rx rx s (m_start m) = Some m" by auto
  from match_alts_Some [OF s(2) s(1)] obtain name spec caps where
    m: "(name, spec) \<in> set rx" "rmatch spec s (m_start m) [] [] = Some (m_end m, caps)"
       "m_lastgroup m = Some name"
       "m_groupdict m = map (\<lambda>g. (g, if g = name then Some (slice s (m_start m) (m_end m))
                                        else map_of caps g)) (all_groups rx)" by auto
  from assms(2) m(1) have "1 \<le> min_length spec"
    by (auto simp: nonempty_matches_def list_all_iff)
  with rmatch_bounds [OF m(2) s(1)] have lt: "m_start m < m_end m" by simp
  from m(1) have "name \<in> set (all_groups rx)" by (rule all_groups_name)
  then have "map_of (m_groupdict m) name = Some (Some (slice s (m_start m) (m_end m)))"
    unfolding m(4) by (simp add: map_of_tabulate)
  with m(3) have "\<exists>props. get_properties (m_lastgroup m) m = Inr props"
    by (simp add: get_properties_def)
  with lt show ?thesis by simp
qed

lemma scan_loop_total:
  assumes "nonempty_matches rx"
  shows "pos \<le> length s \<Longrightarrow> \<exists>toks. scan_loop rx s pos = Some (Inr toks)"
proof (induction "length s - pos" arbitrary: pos rule: less_induct)
  case less
  show ?case
  proof (cases "search rx s pos")
    case None
    then show ?thesis by (subst scan_loop.simps) simp
  next
    case (Some m)
    from search_nonempty [OF Some assms] obtain props where
      lt: "m_start m < m_end m" and gp: "get_properties (m_lastgroup m) m = Inr props" by auto
    note b = search_bounds [OF Some]
    from b lt less.prems have "length s - m_end m < length s - pos" by linarith
    from less.hyps [OF this] b obtain toks where "scan_loop rx s (m_end m) = Some (Inr toks)"
      by auto
    with Some gp show ?thesis by (subst scan_loop.simps) simp
  qed
qed

text \<open>
  C10.  The scanner loses nothing: whenever \<open>scan\<close> returns, the texts of its tokens, in the
  order they are yielded, put together give the input.  For the expression of
  \<open>DocstringScanner\<close>, the only one the repository builds, \<open>scan\<close> returns on every input.
\<close>

theorem scan_lossless:
  "(scan rx s = Some (Inr toks) \<longrightarrow> concat (map tok_text toks) = s)
   \<and> (\<exists>drx dtoks. docstring_regex = Inr drx \<and> scan drx s = Some (Inr dtoks)
         \<and> concat (map tok_text dtoks) = s)"
proof
  show a: "scan rx s = Some (Inr toks) \<longrightarrow> concat (map tok_text toks) = s" for rx toks
    using scan_loop_lossless [of rx s 0 "Inr toks"] by (simp add: scan_def)
  from scan_loop_total [OF docstring_nonempty_matches, of 0 s]
  obtain dtoks where d: "scan docstring_alternatives s = Some (Inr dtoks)"
    by (auto simp: scan_def)
  with a [of docstring_alternatives dtoks] docstring_regex_eq
  show "\<exists>drx dtoks. docstring_regex = Inr drx \<and> scan drx s = Some (Inr dtoks)
         \<and> concat (map tok_text dtoks) = s" by blast
qed

lemma scan_example: "scan docstring_alternatives example_text = Some (Inr example_tokens)"
  by code_simp

theorem scan_lossless_witness:
  "scan docstring_alternatives example_text = Some (Inr example_tokens)
   \<and> concat (map tok_text example_tokens) = example_text"
  using scan_lossless [of docstring_alternatives example_text example_tokens] scan_example
  by blast

section \<open>Code blocks with a language\<close>

text \<open>
  C3.  The tag is looked up in lower case, and a tag of the table gives the attribute
  \<open>mime\<close>.  A tag that is not in the table does not give an unlabelled code block: the
  lookup \<open>language_mimes[...]\<close> raises KeyError, and \<open>format\<close> with it.
\<close>

theorem unknown_language_raises:
  "format 10 example_env init_state widget (Some rust_block) = Some (Inl KeyError)
   \<and> format 10 example_env init_state widget (Some python_block)
       = Some (Inr (''<p></p><code mime='' @ [CHR 0x22] @ ''text/x-python'' @ [CHR 0x22] @ ''></p>'',
                    init_state \<lparr> processing_code := True \<rparr>))"
  by code_simp

section \<open>Type names in the plural\<close>

text \<open>
  C4.  \<open>ident.rstrip("s")\<close> strips every trailing \<open>s\<close>, not one: neither \<open>GtkWidgetss\<close>
  nor \<open>GtkWidgets\<close> is a type, and yet \<open>#GtkWidgetss\<close> is linked to \<open>Gtk.Widget\<close>.
  The link of a singular form has the page identifier with an \<open>s\<close> as its text and the
  page identifier itself as its target.
\<close>

theorem rstrip_strips_every_s:
  "resolve_type example_env ''GtkWidgetss'' = Inr None
   \<and> resolve_type example_env ''GtkWidgets'' = Inr None
   \<and> format 10 example_env init_state widget (Some ''#GtkWidgetss'')
       = Some (Inr (''<p><link xref='' @ [CHR 0x22] @ ''Gtk.Widget'' @ [CHR 0x22]
                      @ ''>Gtk.Widgets</link></p>'', init_state))"
  by code_simp

section \<open>The end of a document\<close>

text \<open>
  The claim C2 as written fails on a document of one heading: the section left open is
  closed after the last \<open></p>\<close>, not before it.
\<close>

theorem section_closed_after_paragraph_counterexample:
  "format_emissions 10 example_env init_state widget (Some ''# T'')
     = Some (Inr (one_heading, init_state))
   \<and> last one_heading = SectionClose
   \<and> format 10 example_env init_state widget (Some ''# T'')
     = Some (Inr (''<p></p><section><title>T</title><p>'' @ ''</p>'' @ ''</section>'', init_state))"
  by code_simp

lemma close_all_replicate:
  "close_all opened = (replicate (nat opened) SectionClose, min opened 0)"
proof (induction opened rule: close_all.induct)
  case (1 opened)
  show ?case
  proof (cases "opened > 0")
    case True
    then have "nat opened = Suc (nat (opened - 1))" by simp
    with 1 True show ?thesis by (simp add: close_all.simps [of opened])
  next
    case False
    then show ?thesis by (simp add: close_all.simps [of opened])
  qed
qed

lemma render_append: "render (a @ b) = render a @ render b"
  by (simp add: render_def)

lemma render_closes: "render (replicate n SectionClose) = concat (replicate n ''</section>'')"
  by (induction n) (simp_all add: render_def)

text \<open>
  C2, as the code has it.  The string \<open>format\<close> returns is the inline text, wrapped in
  \<open><p>\<close> and \<open></p>\<close> unless the formatter was inside a code block when called, and then
  one \<open></section>\<close> for every section the inline text left open: the sections are closed
  after the last paragraph.
\<close>

theorem format_closes_sections_last:
  assumes "format depth env st node (Some doc) = Some (Inr (out, st'))"
  shows "\<exists>inline st1. format_inline depth env st node doc = Some (Inr (inline, st1))
           \<and> out = (if processing_code st then [] else ''<p>'') @ render inline
                   @ (if processing_code st then [] else ''</p>'')
                   @ concat (replicate (nat (opened_sections st1)) ''</section>'')"
proof (cases "format_inline depth env st node doc")
  case None
  with assms show ?thesis by (simp add: format_def format_emissions_def)
next
  case (Some r)
  show ?thesis
  proof (cases r)
    case (Inl e)
    with Some assms show ?thesis by (simp add: format_def format_emissions_def)
  next
    case (Inr p)
    obtain inline st1 where p: "p = (inline, st1)" by (cases p)
    with Some Inr assms show ?thesis
      by (auto simp: format_def format_emissions_def close_all_replicate render_append
                     render_closes)
         (simp_all add: render_def)
  qed
qed

theorem format_closes_sections_last_witness:
  "format 10 example_env init_state widget (Some ''# T'')
     = Some (Inr (''<p></p><section><title>T</title><p></p></section>'', init_state))
   \<and> (\<exists>inline st1. format_inline 10 example_env init_state widget ''# T'' = Some (Inr (inline, st1))
           \<and> ''<p></p><section><title>T</title><p></p></section>''
               = (if processing_code init_state then [] else ''<p>'') @ render inline
                   @ (if processing_code init_state then [] else ''</p>'')
                   @ concat (replicate (nat (opened_sections st1)) ''</section>''))"
proof -
  have e: "format 10 example_env init_state widget (Some ''# T'')
     = Some (Inr (''<p></p><section><title>T</title><p></p></section>'', init_state))"
    by code_simp
  from format_closes_sections_last [OF e] e show ?thesis by simp
qed

section \<open>The properties of a token\<close>

lemma docstring_well_named: "well_named docstring_alternatives"
  by code_simp

lemma rmatch_captures:
  "rmatch p s i stk caps = Some (e, caps') \<Longrightarrow> closes_groups p (length stk)
   \<Longrightarrow> set (group_names p) \<union> stack_names stk \<union> dom (map_of caps) \<subseteq> dom (map_of caps')"
proof (induction p s i stk caps rule: rmatch.induct)
  case (3 c mn r s i stk caps)
  from "3.prems"(1) obtain k where k: "rmatch r s (i + k) stk caps = Some (e, caps')"
    by (auto dest: backtrack_Some)
  from "3.IH" [OF k] "3.prems"(2) show ?case by simp
next
  case (4 nm r s i stk caps)
  from "4.prems" have "set (group_names r) \<union> stack_names ((nm, i) # stk) \<union> dom (map_of caps)
      \<subseteq> dom (map_of caps')" by (intro "4.IH") simp_all
  then show ?case by (cases nm) (auto simp: stack_names_def)
next
  case (6 r s i nm j stk caps)
  define caps1 where "caps1 = (case nm of None \<Rightarrow> caps | Some n \<Rightarrow> AList.update n (slice s j i) caps)"
  from "6.prems" have m: "rmatch r s i stk caps1 = Some (e, caps')" and c: "closes_groups r (length stk)"
    by (simp_all add: caps1_def)
  from "6.IH" [OF m [unfolded caps1_def] c]
  have 1: "set (group_names r) \<union> stack_names stk \<union> dom (map_of caps1) \<subseteq> dom (map_of caps')"
    by (simp add: caps1_def)
  have 2: "stack_names ((nm, j) # stk) \<union> dom (map_of caps) \<subseteq> stack_names stk \<union> dom (map_of caps1)"
    by (cases nm) (auto simp: stack_names_def update_conv' caps1_def)
  have 3: "group_names (Close # r) = group_names r" by simp
  from 1 2 show ?case unfolding 3 by blast
qed (auto split: if_splits simp: stack_names_def)

lemma fold_properties:
  "distinct (map fst gd) \<Longrightarrow>
   map_of (fold (\<lambda>(group, val) properties.
                   if startswith group pre
                   then AList.update (drop (length pre) group) val properties
                   else properties) gd acc) key
   = (case map_of gd (pre @ key) of Some v \<Rightarrow> Some v | None \<Rightarrow> map_of acc key)"
proof (induction gd arbitrary: acc)
  case Nil
  then show ?case by simp
next
  case (Cons a gd)
  obtain g v where a: "a = (g, v)" by (cases a)
  from Cons.prems a have d: "distinct (map fst gd)" and g: "g \<notin> fst ` set gd" by auto
  have gn: "map_of gd g = None" using g by (simp add: map_of_eq_None_iff)
  show ?case
  proof (cases "g = pre @ key")
    case True
    then have sw: "startswith g pre" "drop (length pre) g = key" by (simp_all add: startswith_def)
    from gn True have "map_of gd (pre @ key) = None" by simp
    with sw a Cons.IH [OF d] show ?thesis by (simp add: update_conv' True)
  next
    case False
    show ?thesis
    proof (cases "startswith g pre")
      case True
      then have "g = pre @ drop (length pre) g"
        by (metis append_take_drop_id startswith_def)
      with False have "drop (length pre) g \<noteq> key" by auto
      with True False a Cons.IH [OF d] show ?thesis
        by (simp add: update_conv' split: option.splits)
    next
      case sf: False
      with False a Cons.IH [OF d] show ?thesis by simp
    qed
  qed
qed

lemma get_properties_lookup:
  assumes "get_properties (Some kind) m = Inr p" and "distinct (map fst (m_groupdict m))"
  shows "map_of p key =
           (case map_of (AList.delete kind (m_groupdict m)) (kind @ ''_'' @ key) of
              Some v \<Rightarrow> Some v
            | None \<Rightarrow> (if key = kind then map_of (m_groupdict m) kind else None))"
proof -
  from assms(1) obtain v where v: "map_of (m_groupdict m) kind = Some v"
    and p: "p = fold (\<lambda>(group, val) properties.
                            if startswith group (kind @ ''_'')
                            then AList.update (drop (length (kind @ ''_'')) group) val properties
                            else properties)
                      (AList.delete kind (m_groupdict m)) [(kind, v)]"
    by (auto simp: get_properties_def split: option.splits)
  from assms(2) have "distinct (map fst (AList.delete kind (m_groupdict m)))"
    by (rule distinct_delete)
  from fold_properties [OF this, of "kind @ ''_''" "[(kind, v)]" key] p v
  show ?thesis by (auto split: option.splits)
qed

lemma scan_loop_tokens:
  assumes "scan_loop rx s pos = Some r"
  shows "\<forall>toks. r = Inr toks \<longrightarrow>
           (\<forall>tok \<in> set toks. case tok of (kind, match, props) \<Rightarrow>
              (case props of
                 None \<Rightarrow> kind = ''other''
               | Some p \<Rightarrow> \<exists>from m. search rx s from = Some m \<and> m_lastgroup m = Some kind
                            \<and> match = slice s (m_start m) (m_end m)
                            \<and> get_properties (Some kind) m = Inr p))"
proof (rule scan_loop.raw_induct [where P = "\<lambda>rx s pos r. \<forall>toks. r = Inr toks \<longrightarrow>
           (\<forall>tok \<in> set toks. case tok of (kind, match, props) \<Rightarrow>
              (case props of
                 None \<Rightarrow> kind = ''other''
               | Some p \<Rightarrow> \<exists>from m. search rx s from = Some m \<and> m_lastgroup m = Some kind
                            \<and> match = slice s (m_start m) (m_end m)
                            \<and> get_properties (Some kind) m = Inr p))", OF _ assms])
  fix loop :: "regex \<Rightarrow> string \<Rightarrow> nat \<Rightarrow> (error + token list) option"
    and rx s pos r
  assume IH: "\<And>rx s pos r. loop rx s pos = Some r \<Longrightarrow>
     \<forall>toks. r = Inr toks \<longrightarrow>
           (\<forall>tok \<in> set toks. case tok of (kind, match, props) \<Rightarrow>
              (case props of
                 None \<Rightarrow> kind = ''other''
               | Some p \<Rightarrow> \<exists>from m. search rx s from = Some m \<and> m_lastgroup m = Some kind
                            \<and> match = slice s (m_start m) (m_end m)
                            \<and> get_properties (Some kind) m = Inr p))"
  assume body: "(case search rx s pos of
      None \<Rightarrow> Some (Inr (if pos < length s then [(''other'', drop pos s, None)] else []))
      | Some m \<Rightarrow>
          (case get_properties (m_lastgroup m) m of Inl e \<Rightarrow> Some (Inl e)
          | Inr properties \<Rightarrow>
              Option.bind (loop rx s (m_end m))
               (\<lambda>rest. Some (case rest of Inl e \<Rightarrow> Inl e
                     | Inr toks \<Rightarrow>
                         Inr ((if pos < m_start m
                               then [(''other'', slice s pos (m_start m), None)] else []) @
                              ((case m_lastgroup m of None \<Rightarrow> [] | Some name \<Rightarrow> name),
                               slice s (m_start m) (m_end m), Some properties) # toks))))) = Some r"
  show "\<forall>toks. r = Inr toks \<longrightarrow>
           (\<forall>tok \<in> set toks. case tok of (kind, match, props) \<Rightarrow>
              (case props of
                 None \<Rightarrow> kind = ''other''
               | Some p \<Rightarrow> \<exists>from m. search rx s from = Some m \<and> m_lastgroup m = Some kind
                            \<and> match = slice s (m_start m) (m_end m)
                            \<and> get_properties (Some kind) m = Inr p))"
  proof (intro allI impI)
    fix toks assume r: "r = Inr toks"
    show "\<forall>tok \<in> set toks. case tok of (kind, match, props) \<Rightarrow>
              (case props of
                 None \<Rightarrow> kind = ''other''
               | Some p \<Rightarrow> \<exists>from m. search rx s from = Some m \<and> m_lastgroup m = Some kind
                            \<and> match = slice s (m_start m) (m_end m)
                            \<and> get_properties (Some kind) m = Inr p)"
    proof (cases "search rx s pos")
      case None
      with body r show ?thesis by auto
    next
      case (Some m)
      from body Some r obtain properties where gp: "get_properties (m_lastgroup m) m = Inr properties"
        by (cases "get_properties (m_lastgroup m) m") auto
      then obtain name where name: "m_lastgroup m = Some name"
        by (cases "m_lastgroup m") (auto simp: get_properties_def)
      from body Some gp obtain rest where rest: "loop rx s (m_end m) = Some rest"
        by (auto simp: bind_eq_Some_conv)
      with body Some gp r name obtain toks' where toks': "rest = Inr toks'"
        and toks: "toks = (if pos < m_start m
                            then [(''other'', slice s pos (m_start m), None)] else [])
                           @ (name, slice s (m_start m) (m_end m), Some properties) # toks'"
        by (cases rest) auto
      from IH [OF rest] toks' have ih: "\<forall>tok \<in> set toks'. case tok of (kind, match, props) \<Rightarrow>
              (case props of
                 None \<Rightarrow> kind = ''other''
               | Some p \<Rightarrow> \<exists>from m. search rx s from = Some m \<and> m_lastgroup m = Some kind
                            \<and> match = slice s (m_start m) (m_end m)
                            \<and> get_properties (Some kind) m = Inr p)" by simp
      have this_tok: "\<exists>from m'. search rx s from = Some m' \<and> m_lastgroup m' = Some name
                            \<and> slice s (m_start m) (m_end m) = slice s (m_start m') (m_end m')
                            \<and> get_properties (Some name) m' = Inr properties"
        using Some gp name by auto
      show ?thesis unfolding toks using ih this_tok by (auto split: if_splits)
    qed
  qed
qed

lemma well_named_token:
  assumes wn: "well_named rx" and ne: "rx \<noteq> []"
    and scan: "scan rx s = Some (Inr toks)" and tok: "(kind, match, Some p) \<in> set toks"
  shows "\<exists>from m spec caps.
           search rx s from = Some m \<and> m_lastgroup m = Some kind
           \<and> match = slice s (m_start m) (m_end m)
           \<and> (kind, spec) \<in> set rx
           \<and> rmatch spec s (m_start m) [] [] = Some (m_end m, caps)
           \<and> kind \<in> dom (map_of p)
           \<and> (\<forall>g \<in> set (group_names spec). \<exists>key v. g = kind @ ''_'' @ key
                  \<and> map_of caps g = Some v \<and> map_of p key = Some (Some v))"
proof -
  from scan_loop_tokens [of rx s 0 "Inr toks"] scan tok
  obtain "from" m where m: "search rx s from = Some m" "m_lastgroup m = Some kind"
      "match = slice s (m_start m) (m_end m)" "get_properties (Some kind) m = Inr p"
    by (fastforce simp: scan_def)
  from search_Some [OF m(1)] ne have st: "m_start m \<le> length s"
    and ma: "match_alts rx rx s (m_start m) = Some m" by auto
  from match_alts_Some [OF ma st] m(2) obtain spec caps where
    sp: "(kind, spec) \<in> set rx" "rmatch spec s (m_start m) [] [] = Some (m_end m, caps)"
    and gd: "m_groupdict m = map (\<lambda>g. (g, if g = kind then Some (slice s (m_start m) (m_end m))
                                        else map_of caps g)) (all_groups rx)"
    by auto
  from wn have dist: "distinct (map fst (m_groupdict m))"
    unfolding gd by (simp add: well_named_def comp_def)
  note look = get_properties_lookup [OF m(4) dist]
  from sp(1) have kin: "kind \<in> set (all_groups rx)" by (rule all_groups_name)
  then have "map_of (m_groupdict m) kind \<noteq> None" unfolding gd by (simp add: map_of_tabulate)
  with look [of kind] have kd: "kind \<in> dom (map_of p)" by (auto split: option.splits)
  from wn sp(1) have cg: "closes_groups spec 0"
    and pre: "\<forall>g \<in> set (group_names spec). startswith g (kind @ ''_'')"
    by (auto simp: well_named_def list_all_iff)
  from rmatch_captures [OF sp(2)] cg have cap: "set (group_names spec) \<subseteq> dom (map_of caps)"
    by simp
  have "\<exists>key v. g = kind @ ''_'' @ key \<and> map_of caps g = Some v \<and> map_of p key = Some (Some v)"
    if g: "g \<in> set (group_names spec)" for g
  proof -
    from cap g obtain v where v: "map_of caps g = Some v" by auto
    from pre g have "startswith g (kind @ ''_'')" by simp
    then have ge: "g = kind @ ''_'' @ drop (length (kind @ ''_'')) g"
      by (metis append.assoc append_take_drop_id startswith_def)
    then have gk: "g \<noteq> kind" by (metis append_self_conv list.distinct(1) append_is_Nil_conv)
    from sp(1) g have "g \<in> set (all_groups rx)" by (force simp: all_groups_def)
    with gk v have "map_of (m_groupdict m) g = Some (Some v)"
      unfolding gd by (simp add: map_of_tabulate)
    with gk have dl: "map_of (AList.delete kind (m_groupdict m)) g = Some (Some v)"
      by (simp add: delete_conv')
    define key where "key = drop (length (kind @ ''_'')) g"
    from ge have gkey: "g = kind @ ''_'' @ key" by (simp add: key_def)
    from dl have "map_of (AList.delete kind (m_groupdict m)) (kind @ ''_'' @ key) = Some (Some v)"
      by (simp only: gkey [symmetric])
    with look [of key] have "map_of p key = Some (Some v)" by (simp only: option.case)
    with gkey v show ?thesis by blast
  qed
  with m sp kd show ?thesis by blast
qed

lemma docstring_alternatives_nonempty: "docstring_alternatives \<noteq> []"
  using docstring_nonempty_matches by (simp add: nonempty_matches_def)




section \<open>Implicit links in plain text\<close>





section \<open>The state of the formatter\<close>

lemma core_warn [simp]: "core (warn text nsn st) = core st"
  by (simp add: core_def warn_def message_warn_def)

lemma core_message_warn [simp]: "core (message_warn text st) = core st"
  by (simp add: core_def message_warn_def)

lemma core_warn_reference [simp]: "core (warn_reference env ns ref exact st) = core st"
  by (simp add: warn_reference_def Let_def)

lemma gtk_doc_attributes_core:
  "format_gtk_doc_attributes env st node attrdict = Inr (attrs, st') \<Longrightarrow> core st' = core st"
  unfolding format_gtk_doc_attributes_def Let_def
  by (auto split: option.splits sum.splits prod.splits if_splits)

lemma gtk_doc_attributes_output:
  "map_sum id fst (format_gtk_doc_attributes env st1 node attrdict)
   = map_sum id fst (format_gtk_doc_attributes env st2 node attrdict)"
  unfolding format_gtk_doc_attributes_def Let_def
  by (simp split: option.splits sum.splits prod.splits)

lemma map_sum_fst_eq:
  "map_sum id fst r1 = map_sum id fst r2 \<Longrightarrow>
   (\<exists>e. r1 = Inl e \<and> r2 = Inl e) \<or> (\<exists>x s1 s2. r1 = Inr (x, s1) \<and> r2 = Inr (x, s2))"
  by (cases r1; cases r2) auto

lemma external_xref_core:
  "format_external_xref env st node attrdict linkname pluralize = Inr (link, st') \<Longrightarrow> core st' = core st"
  unfolding format_external_xref_def Let_def
  by (auto split: option.splits sum.splits prod.splits if_splits dest: gtk_doc_attributes_core)

lemma external_xref_output:
  "map_sum id fst (format_external_xref env st1 node attrdict linkname pluralize)
   = map_sum id fst (format_external_xref env st2 node attrdict linkname pluralize)"
proof (cases "link_to_gtk_doc env")
  case True
  from map_sum_fst_eq [OF gtk_doc_attributes_output [of env st1 node attrdict st2]]
  show ?thesis unfolding format_external_xref_def Let_def using True
    by (auto split: sum.splits)
next
  case False
  then show ?thesis unfolding format_external_xref_def Let_def
    by (auto split: option.splits sum.splits prod.splits)
qed

lemma format_xref_core:
  "format_xref env st node pluralize linkname attrdict = Inr (link, st') \<Longrightarrow> core st' = core st"
proof (induction env st node pluralize linkname attrdict arbitrary: link st' rule: format_xref.induct)
  case (1 env st pluralize linkname attrdict)
  then show ?case by simp
next
  case (2 env st kind name nspace parent chain shadows props sigs pluralize linkname attrdict)
  show ?case
  proof (cases nspace)
    case None
    with "2.prems" show ?thesis by simp
  next
    case (Some ns)
    show ?thesis
    proof (cases "kind = Member \<and> (\<not> link_to_gtk_doc env \<or> ns = Some (transformer_namespace env))")
      case True
      with "2.prems" Some obtain l where
        "format_xref env st parent pluralize linkname attrdict = Inr (l, st')"
        by (auto simp: Let_def split: sum.splits)
      from "2.IH" [OF refl Some True this] show ?thesis .
    next
      case False
      with "2.prems" Some show ?thesis
        by (auto simp: Let_def split: sum.splits if_splits dest: external_xref_core)
    qed
  qed
qed

lemma format_xref_output:
  "map_sum id fst (format_xref env st1 node pluralize linkname attrdict)
   = map_sum id fst (format_xref env st2 node pluralize linkname attrdict)"
proof (induction env st1 node pluralize linkname attrdict rule: format_xref.induct)
  case (1 env st pluralize linkname attrdict)
  then show ?case by simp
next
  case (2 env st kind name nspace parent chain shadows props sigs pluralize linkname attrdict)
  show ?case
  proof (cases nspace)
    case None
    then show ?thesis by simp
  next
    case (Some ns)
    show ?thesis
    proof (cases "kind = Member \<and> (\<not> link_to_gtk_doc env \<or> ns = Some (transformer_namespace env))")
      case True
      from map_sum_fst_eq [OF "2.IH" [OF refl Some True]] Some True
      show ?thesis by (auto simp: Let_def)
    next
      case False
      show ?thesis
      proof (cases "ns = Some (transformer_namespace env)")
        case True
        with Some False show ?thesis by (auto simp: Let_def split: sum.splits)
      next
        case ext: False
        from False ext Some have eq: "\<And>s. format_xref env s
            (Some (Node kind name nspace parent chain shadows props sigs)) pluralize linkname attrdict
            = format_external_xref env s (Node kind name nspace parent chain shadows props sigs)
                attrdict linkname pluralize"
          by (simp only: format_xref.simps Let_def option.case if_False)
        show ?thesis unfolding eq by (rule external_xref_output)
      qed
    qed
  qed
qed

lemma collect_links_core:
  "collect_links env st ws acc = Inr (links, st') \<Longrightarrow> core st' = core st"
proof (induction ws arbitrary: st acc)
  case Nil
  then show ?case by simp
next
  case (Cons word ws)
  show ?case
  proof (cases "word = []")
    case True
    with Cons show ?thesis by simp
  next
    case ne: False
    from Cons.prems ne obtain type symbol where
      rt: "resolve_type env word = Inr type" and rs: "resolve_symbol env word = Inr symbol"
      by (auto split: sum.splits)
    show ?thesis
    proof (cases "if type \<noteq> None then type else symbol")
      case None
      with Cons.prems ne rt rs have "collect_links env st ws acc = Inr (links, st')" by simp
      then show ?thesis by (rule Cons.IH)
    next
      case (Some node)
      with Cons.prems ne rt rs obtain xref st1 where
        fx: "format_xref env st (Some node) False (Some word) [] = Inr (xref, st1)"
        and rec: "collect_links env st1 ws (AList.update word xref acc) = Inr (links, st')"
        by (auto split: sum.splits)
      from Cons.IH [OF rec] format_xref_core [OF fx] show ?thesis by simp
    qed
  qed
qed

lemma collect_links_output:
  "map_sum id fst (collect_links env st1 ws acc) = map_sum id fst (collect_links env st2 ws acc)"
proof (induction ws arbitrary: st1 st2 acc)
  case Nil
  show ?case by simp
next
  case (Cons word ws)
  show ?case
  proof (cases "word = []")
    case True
    with Cons show ?thesis by simp
  next
    case ne: False
    show ?thesis
    proof (cases "resolve_type env word")
      case (Inl e)
      with ne show ?thesis by simp
    next
      case rt: (Inr type)
      show ?thesis
      proof (cases "resolve_symbol env word")
        case (Inl e)
        with ne rt show ?thesis by simp
      next
        case rs: (Inr symbol)
        show ?thesis
        proof (cases "if type \<noteq> None then type else symbol")
          case None
          with ne rt rs Cons.IH [of st1 acc st2] show ?thesis by simp
        next
          case (Some node)
          from map_sum_fst_eq [OF format_xref_output [of env st1 "Some node" False "Some word" "[]" st2]]
          show ?thesis
          proof
            assume "\<exists>e. format_xref env st1 (Some node) False (Some word) [] = Inl e
                      \<and> format_xref env st2 (Some node) False (Some word) [] = Inl e"
            with ne rt rs Some show ?thesis by auto
          next
            assume "\<exists>x s1 s2. format_xref env st1 (Some node) False (Some word) [] = Inr (x, s1)
                      \<and> format_xref env st2 (Some node) False (Some word) [] = Inr (x, s2)"
            then obtain x s1 s2 where
              "format_xref env st1 (Some node) False (Some word) [] = Inr (x, s1)"
              "format_xref env st2 (Some node) False (Some word) [] = Inr (x, s2)" by blast
            with ne rt rs Some Cons.IH [of s1 "AList.update word x acc" s2]
            show ?thesis by simp
          qed
        qed
      qed
    qed
  qed
qed

lemma implicit_links_core:
  "resolve_implicit_links env st text = Inr (out, st') \<Longrightarrow> core st' = core st"
  unfolding resolve_implicit_links_def Let_def
  by (auto split: if_splits sum.splits dest: collect_links_core)

lemma implicit_links_output:
  "map_sum id fst (resolve_implicit_links env st1 text)
   = map_sum id fst (resolve_implicit_links env st2 text)"
proof (cases "opt_resolve_implicit_links env")
  case True
  from map_sum_fst_eq [OF collect_links_output
      [of env st1 "re_split is_word_sep (escape text)" "[]" st2]] True
  show ?thesis unfolding resolve_implicit_links_def Let_def by auto
next
  case False
  then show ?thesis by (simp add: resolve_implicit_links_def Let_def)
qed

lemma net_append: "net (a @ b) = net a + net b"
  by (simp add: net_def)

lemma net_Nil [simp]: "net [] = 0"
  by (simp add: net_def)

lemma net_texts: "list_all is_text out \<Longrightarrow> net out = 0"
  by (induction out) (auto simp: net_def is_text_def split: emission.splits)

lemma texts_take: "list_all is_text out \<Longrightarrow> list_all is_text (take n out)"
  by (auto simp: list_all_iff dest: in_set_takeD)

lemma tracks_texts: "list_all is_text out \<Longrightarrow> 0 \<le> d \<Longrightarrow> tracks d out d"
  by (simp add: tracks_def net_texts texts_take)

lemma tracks_Nil: "0 \<le> d \<Longrightarrow> tracks d [] d"
  by (simp add: tracks_def)

lemma tracks_append:
  assumes "tracks d a d1" and "tracks d1 b d2"
  shows "tracks d (a @ b) d2"
proof -
  have "0 \<le> d + net (take n (a @ b))" for n
  proof (cases "n \<le> length a")
    case True
    with assms(1) show ?thesis by (simp add: tracks_def)
  next
    case False
    then have t: "take n (a @ b) = a @ take (n - length a) b" by simp
    from assms have "d + net a = d1" "0 \<le> d1 + net (take (n - length a) b)"
      by (simp_all add: tracks_def)
    then show ?thesis unfolding t net_append by linarith
  qed
  with assms show ?thesis by (auto simp: tracks_def net_append)
qed

lemma net_closes: "net (replicate k SectionClose) = - int k"
  by (induction k) (simp_all add: net_def)

lemma net_opens: "net (replicate k SectionOpen) = int k"
  by (induction k) (simp_all add: net_def)

lemma tracks_closes: "int k \<le> d \<Longrightarrow> tracks d (replicate k SectionClose) (d - int k)"
  by (auto simp: tracks_def net_closes min_def)

lemma tracks_opens: "0 \<le> d \<Longrightarrow> tracks d (replicate k SectionOpen) (d + int k)"
  by (auto simp: tracks_def net_opens)

lemma close_sections_replicate:
  "close_sections opened level
   = (replicate (nat (opened - level + 1)) SectionClose, min opened (level - 1))"
proof (induction opened level rule: close_sections.induct)
  case (1 opened level)
  show ?case
  proof (cases "opened \<ge> level")
    case True
    then have "nat (opened - level + 1) = Suc (nat (opened - 1 - level + 1))" by simp
    with 1 True show ?thesis by (simp add: close_sections.simps [of opened level])
  next
    case False
    then show ?thesis by (simp add: close_sections.simps [of opened level])
  qed
qed

lemma open_sections_replicate:
  "open_sections opened level
   = (replicate (nat (level - opened)) SectionOpen, max opened level)"
proof (induction opened level rule: open_sections.induct)
  case (1 opened level)
  show ?case
  proof (cases "opened < level")
    case True
    then have "nat (level - opened) = Suc (nat (level - (opened + 1)))" by simp
    with 1 True show ?thesis by (simp add: open_sections.simps [of opened level])
  next
    case False
    then show ?thesis by (simp add: open_sections.simps [of opened level])
  qed
qed

lemma header_level_loop_ge:
  "header_level_loop m i = Inr level \<Longrightarrow> i \<le> level"
proof (induction m i rule: header_level_loop.induct)
  case (1 m i)
  then show ?case
    by (subst (asm) (2) header_level_loop.simps) (auto split: if_splits)
qed

lemma header_level_positive:
  assumes "header_level_loop m 0 = Inr level" and "m \<noteq> []" and "hd m = CHR ''#''"
  shows "1 \<le> level"
proof -
  from assms(2,3) have "m ! 0 = CHR ''#''" "0 < length m" by (simp_all add: hd_conv_nth)
  with assms(1) have "header_level_loop m 1 = Inr level"
    by (subst (asm) header_level_loop.simps) simp
  then show ?thesis by (rule header_level_loop_ge)
qed

lemma strip_newlines_hash:
  assumes "m \<noteq> []" and "hd m = CHR ''#''"
  shows "strip_chars (\<lambda>c. c = CHR 0x0A) m \<noteq> [] \<and> hd (strip_chars (\<lambda>c. c = CHR 0x0A) m) = CHR ''#''"
proof -
  from assms obtain xs where m: "m = CHR ''#'' # xs" by (cases m) auto
  have "dropWhile (\<lambda>c. c = CHR 0x0A) (rev xs @ [CHR ''#''])
        = dropWhile (\<lambda>c. c = CHR 0x0A) (rev xs) @ [CHR ''#'']
        \<or> dropWhile (\<lambda>c. c = CHR 0x0A) (rev xs @ [CHR ''#'']) = [CHR ''#'']"
    by (simp add: dropWhile_append)
  then obtain ys where "dropWhile (\<lambda>c. c = CHR 0x0A) (rev xs @ [CHR ''#'']) = ys @ [CHR ''#'']"
    by (metis append_Nil)
  with m show ?thesis by (simp add: strip_chars_def rstrip_chars_def)
qed

lemma heading_tracks:
  assumes "process_heading st match props = Inr (out, st')"
    and "match \<noteq> []" and "hd match = CHR ''#''" and "0 \<le> opened_sections st"
  shows "tracks (opened_sections st) out (opened_sections st')
         \<and> processing_code st' = processing_code st"
proof (cases "processing_code st")
  case True
  with assms show ?thesis by (auto simp: process_heading_def tracks_texts is_text_def)
next
  case False
  let ?m = "strip_chars (\<lambda>c. c = CHR 0x0A) match"
  let ?d = "opened_sections st"
  from assms(1) False obtain level heading where
    lv: "header_level_loop ?m 0 = Inr level" and hd: "prop_str props ''heading'' = Inr heading"
    by (auto simp: process_heading_def close_sections_replicate open_sections_replicate
             split: sum.splits)
  from strip_newlines_hash [OF assms(2,3)] lv have pos: "1 \<le> level"
    by (intro header_level_positive) auto
  define k where "k = nat (?d - int level + 1)"
  define d1 where "d1 = min ?d (int level - 1)"
  define j where "j = nat (int level - d1)"
  from assms(1) False lv hd have out: "out = Text ''</p>'' # replicate k SectionClose
      @ replicate j SectionOpen @ [Text (''<title>'' @ heading @ ''</title><p>'')]"
    and st': "st' = st \<lparr> opened_sections := max d1 (int level) \<rparr>"
    by (auto simp: process_heading_def close_sections_replicate open_sections_replicate
                   k_def d1_def j_def)
  from pos assms(4) have kd: "int k \<le> ?d" and d1: "d1 = ?d - int k" "0 \<le> d1"
    and d2: "max d1 (int level) = d1 + int j"
    by (auto simp: k_def d1_def j_def)
  have t0: "tracks ?d [Text ''</p>''] ?d" using assms(4) by (simp add: tracks_texts is_text_def)
  have t1: "tracks ?d (replicate k SectionClose) d1" using tracks_closes [OF kd] d1 by simp
  have t2: "tracks d1 (replicate j SectionOpen) (d1 + int j)" using d1 by (intro tracks_opens)
  have t3: "tracks (d1 + int j) [Text (''<title>'' @ heading @ ''</title><p>'')] (d1 + int j)"
    using d1 by (simp add: tracks_texts is_text_def)
  from tracks_append [OF t0 tracks_append [OF t1 tracks_append [OF t2 t3]]]
  show ?thesis unfolding out st' d2 by simp
qed

lemma quiet_Inl [simp]: "quiet st (Inl e)"
  by (simp add: quiet_def)

lemma quiet_text [simp]: "quiet st (Inr ([Text s], st))"
  by (simp add: quiet_def is_text_def)

lemma quiet_text_of:
  "(\<And>x st'. r = Inr (x, st') \<Longrightarrow> core st' = core st) \<Longrightarrow> quiet st (text_of r)"
  by (cases r) (auto simp: quiet_def text_of_def is_text_def core_def)

lemma quiet_xref [simp]: "quiet st (text_of (format_xref env st node pluralize linkname attrdict))"
  by (rule quiet_text_of) (rule format_xref_core)

lemma quiet_other [simp]: "quiet st (process_other env st match)"
  unfolding process_other_def by (rule quiet_text_of) (rule implicit_links_core)

lemma view_text_of:
  assumes "map_sum id fst r1 = map_sum id fst r2"
    and "\<And>x s. r1 = Inr (x, s) \<Longrightarrow> core s = c" and "\<And>x s. r2 = Inr (x, s) \<Longrightarrow> core s = c"
  shows "view (text_of r1) = view (text_of r2)"
  using map_sum_fst_eq [OF assms(1)] assms(2,3)
  by (auto simp: view_def text_of_def)

lemma view_xref:
  "core st1 = core st2 \<Longrightarrow>
   view (text_of (format_xref env st1 node pluralize linkname attrdict))
   = view (text_of (format_xref env st2 node pluralize linkname attrdict))"
  by (rule view_text_of [where c = "core st2"])
     (auto simp: format_xref_output dest: format_xref_core)

lemma view_other:
  "core st1 = core st2 \<Longrightarrow> view (process_other env st1 match) = view (process_other env st2 match)"
  unfolding process_other_def
  by (rule view_text_of [where c = "core st2"])
     (auto simp: implicit_links_output dest: implicit_links_core)

lemma view_Inr: "core st1 = core st2 \<Longrightarrow> view (Inr (x, st1)) = view (Inr (x, st2))"
  by (simp add: view_def)

lemma quiet_property [simp]: "quiet st (process_property env st match props)"
  unfolding process_property_def by (simp split: sum.splits option.splits)

lemma quiet_signal [simp]: "quiet st (process_signal env st match props)"
  unfolding process_signal_def by (simp split: sum.splits option.splits)

lemma quiet_type_name [simp]: "quiet st (process_type_name env st match props)"
  unfolding process_type_name_def by (simp split: sum.splits option.splits add: Let_def)

lemma quiet_enum_value [simp]: "quiet st (process_enum_value env st match props)"
  unfolding process_enum_value_def by (simp split: sum.splits option.splits)

lemma quiet_parameter [simp]: "quiet st (process_parameter env st node match props)"
  unfolding process_parameter_def
  by (simp split: sum.splits option.splits add: quiet_def is_text_def)

lemma quiet_function_call [simp]: "quiet st (process_function_call env st match props)"
  unfolding process_function_call_def by (simp split: sum.splits option.splits)

lemma quiet_code_start [simp]: "quiet st (process_code_start st)"
  by (simp add: process_code_start_def quiet_def is_text_def)

lemma quiet_code_start_with_language [simp]: "quiet st (process_code_start_with_language st props)"
  by (simp add: process_code_start_with_language_def quiet_def is_text_def split: sum.splits)

lemma quiet_code_end [simp]: "quiet st (process_code_end st)"
  by (simp add: process_code_end_def quiet_def is_text_def)

lemma quiet_new_line [simp]: "quiet st (process_new_line st)"
  by (simp add: process_new_line_def)

lemma quiet_new_paragraph [simp]: "quiet st (process_new_paragraph st)"
  by (simp add: process_new_paragraph_def)

lemma quiet_note [simp]: "quiet st (process_note st match props)"
  by (simp add: process_note_def split: sum.splits)

lemma view_property:
  "core st1 = core st2 \<Longrightarrow>
   view (process_property env st1 match props) = view (process_property env st2 match props)"
  unfolding process_property_def
  by (auto split: sum.splits option.splits intro!: view_xref view_Inr)

lemma view_signal:
  "core st1 = core st2 \<Longrightarrow>
   view (process_signal env st1 match props) = view (process_signal env st2 match props)"
  unfolding process_signal_def
  by (auto split: sum.splits option.splits intro!: view_xref view_Inr)

lemma view_type_name:
  "core st1 = core st2 \<Longrightarrow>
   view (process_type_name env st1 match props) = view (process_type_name env st2 match props)"
  unfolding process_type_name_def
  by (auto split: sum.splits option.splits intro!: view_xref view_Inr simp: Let_def)

lemma view_enum_value:
  "core st1 = core st2 \<Longrightarrow>
   view (process_enum_value env st1 match props) = view (process_enum_value env st2 match props)"
  unfolding process_enum_value_def
  by (auto split: sum.splits option.splits intro!: view_xref view_Inr)

lemma view_parameter:
  "core st1 = core st2 \<Longrightarrow>
   view (process_parameter env st1 node match props) = view (process_parameter env st2 node match props)"
  unfolding process_parameter_def
  by (auto split: sum.splits option.splits intro!: view_Inr)

lemma view_function_call:
  "core st1 = core st2 \<Longrightarrow>
   view (process_function_call env st1 match props) = view (process_function_call env st2 match props)"
  unfolding process_function_call_def
  by (auto split: sum.splits option.splits intro!: view_xref view_Inr)

lemma view_simple:
  assumes "core st1 = core st2"
  shows "view (process_code_start st1) = view (process_code_start st2)"
    and "view (process_code_start_with_language st1 props) = view (process_code_start_with_language st2 props)"
    and "view (process_code_end st1) = view (process_code_end st2)"
    and "view (process_new_line st1) = view (process_new_line st2)"
    and "view (process_new_paragraph st1) = view (process_new_paragraph st2)"
    and "view (process_note st1 match props) = view (process_note st2 match props)"
    and "view (process_heading st1 match props) = view (process_heading st2 match props)"
  using assms
  by (auto simp: view_def core_def process_code_start_def process_code_start_with_language_def
        process_code_end_def process_new_line_def process_new_paragraph_def process_note_def
        process_heading_def close_sections_replicate open_sections_replicate
      split: sum.splits)

lemma heading_spec:
  "list_all (\<lambda>(name, spec). name \<noteq> ''heading'' \<or> starts_with_hash spec) docstring_alternatives"
  by code_simp

lemma run_length_positive:
  "0 < run_length c xs \<Longrightarrow> xs \<noteq> [] \<and> cls_mem c (hd xs)"
  by (cases xs) (auto split: if_splits)

lemma rmatch_hash:
  assumes "rmatch spec s i [] [] = Some (e, caps)" and "starts_with_hash spec"
  shows "slice s i e \<noteq> [] \<and> hd (slice s i e) = CHR ''#''"
proof -
  from assms(2) obtain n r where spec: "spec = Rep (Only (CHR ''#'')) (Suc n) # r"
    by (auto simp: starts_with_hash_def split: list.splits re_item.splits cls.splits nat.splits)
  from assms(1) [unfolded spec] obtain k where k: "Suc n \<le> k"
      "k \<le> run_length (Only (CHR ''#'')) (drop i s)"
      "rmatch r s (i + k) [] [] = Some (e, caps)"
    by (auto dest: backtrack_Some)
  from k(1,2) have "0 < run_length (Only (CHR ''#'')) (drop i s)" by simp
  from run_length_positive [OF this] have d: "drop i s \<noteq> []" "hd (drop i s) = CHR ''#''" by auto
  from d(1) have il: "i + k \<le> length s"
    using k(2) run_length_le [of "Only (CHR ''#'')" "drop i s"] by simp
  from rmatch_bounds [OF k(3) il] k(1) have "i < e" by simp
  with d show ?thesis by (cases "drop i s") (auto simp: slice_def)
qed

lemma docstring_tokens_wf:
  assumes "scan docstring_alternatives s = Some (Inr toks)" and "tok \<in> set toks"
  shows "wf_token tok"
proof -
  obtain kind match props where tok: "tok = (kind, match, props)" by (cases tok)
  show ?thesis
  proof (cases props)
    case None
    with scan_loop_tokens [of docstring_alternatives s 0 "Inr toks"] assms tok
    have "kind = ''other''" by (fastforce simp: scan_def)
    with tok show ?thesis by (simp add: wf_token_def)
  next
    case (Some p)
    from well_named_token [OF docstring_well_named docstring_alternatives_nonempty assms(1)
        assms(2) [unfolded tok Some]]
    obtain frm m spec caps where "search docstring_alternatives s frm = Some m
           \<and> m_lastgroup m = Some kind
           \<and> match = slice s (m_start m) (m_end m)
           \<and> (kind, spec) \<in> set docstring_alternatives
           \<and> rmatch spec s (m_start m) [] [] = Some (m_end m, caps)
           \<and> kind \<in> dom (map_of p)
           \<and> (\<forall>g \<in> set (group_names spec). \<exists>key v. g = kind @ ''_'' @ key
                  \<and> map_of caps g = Some v \<and> map_of p key = Some (Some v))"
      by (elim exE)
    then have m: "match = slice s (m_start m) (m_end m)"
      "(kind, spec) \<in> set docstring_alternatives"
      "rmatch spec s (m_start m) [] [] = Some (m_end m, caps)" by simp_all
    show ?thesis
    proof (cases "kind = ''heading''")
      case True
      with m(2) heading_spec have "starts_with_hash spec" by (auto simp: list_all_iff)
      from rmatch_hash [OF m(3) this] m(1) tok show ?thesis by (simp add: wf_token_def)
    next
      case False
      with tok show ?thesis by (simp add: wf_token_def)
    qed
  qed
qed

lemma quiet_tracks:
  "quiet st r \<Longrightarrow> r = Inr (out, st') \<Longrightarrow> 0 \<le> opened_sections st
   \<Longrightarrow> tracks (opened_sections st) out (opened_sections st')"
  by (auto simp: quiet_def tracks_texts)

lemma include_tracks:
  assumes "nested_tracks nested" and "process_include nested env st match props = Some (Inr (out, st'))"
    and "0 \<le> opened_sections st"
  shows "tracks (opened_sections st) out (opened_sections st')"
proof -
  from assms(2) obtain include_name where
    n: "prop_str props ''include_name'' = Inr include_name"
    by (auto simp: process_include_def split: sum.splits)
  show ?thesis
  proof (cases "open_include env (py_strip include_name)")
    case None
    with assms(2) n have "out = [Text match]"
      "st' = message_warn (''Could not find file '' @ include_name) st"
      by (auto simp: process_include_def)
    with assms(3) show ?thesis by (simp add: tracks_texts is_text_def message_warn_def)
  next
    case (Some contents)
    show ?thesis
    proof (cases "processing_code st")
      case True
      with assms(2) n Some have r: "text_of (resolve_implicit_links env st contents) = Inr (out, st')"
        by (simp add: process_include_def)
      have "quiet st (text_of (resolve_implicit_links env st contents))"
        by (rule quiet_text_of) (rule implicit_links_core)
      from quiet_tracks [OF this r assms(3)] show ?thesis .
    next
      case False
      with assms(2) n Some have "nested st contents = Some (Inr (out, st'))"
        by (simp add: process_include_def)
      with assms(1,3) show ?thesis by (auto simp: nested_tracks_def)
    qed
  qed
qed

lemma token_tracks:
  assumes "nested_tracks nested" and "wf_token tok"
    and "process_token nested env st node tok = Some (Inr (out, st'))"
    and "0 \<le> opened_sections st"
  shows "tracks (opened_sections st) out (opened_sections st')"
proof -
  obtain kind match props where tok: "tok = (kind, match, props)" by (cases tok)
  show ?thesis
  proof (cases "kind = ''include''")
    case True
    with assms(3) tok have "process_include nested env st match props = Some (Inr (out, st'))"
      by (simp add: process_token_def)
    from include_tracks [OF assms(1) this assms(4)] show ?thesis .
  next
    case ni: False
    show ?thesis
    proof (cases "kind = ''heading''")
      case True
      with assms(3) tok have h: "process_heading st match props = Inr (out, st')"
        by (simp add: process_token_def)
      from assms(2) tok True have "match \<noteq> []" "hd match = CHR ''#''"
        by (simp_all add: wf_token_def)
      from heading_tracks [OF h this assms(4)] show ?thesis by simp
    next
      case nh: False
      from ni nh have "\<exists>r. process_token nested env st node (kind, match, props) = Some r
                            \<and> quiet st r"
        by (simp add: process_token_def)
      with assms(3) tok have "quiet st (Inr (out, st'))" by auto
      from quiet_tracks [OF this refl assms(4)] show ?thesis .
    qed
  qed
qed

lemma tokens_tracks:
  assumes "nested_tracks nested"
  shows "\<forall>tok \<in> set toks. wf_token tok \<Longrightarrow>
         process_tokens nested env st node toks = Some (Inr (out, st')) \<Longrightarrow>
         0 \<le> opened_sections st \<Longrightarrow> tracks (opened_sections st) out (opened_sections st')"
proof (induction toks arbitrary: st out)
  case Nil
  then show ?case by (simp add: tracks_Nil)
next
  case (Cons tok toks)
  from Cons.prems(2) obtain word st1 words where
    1: "process_token nested env st node tok = Some (Inr (word, st1))"
    and 2: "process_tokens nested env st1 node toks = Some (Inr (words, st'))"
    and out: "out = word @ words"
    by (auto split: option.splits sum.splits)
  from Cons.prems(1) have wf: "wf_token tok" "\<forall>t \<in> set toks. wf_token t" by simp_all
  from token_tracks [OF assms wf(1) 1 Cons.prems(3)]
  have t1: "tracks (opened_sections st) word (opened_sections st1)" .
  then have "0 \<le> opened_sections st1" by (auto simp: tracks_def dest: spec [of _ "length word"])
  from Cons.IH [OF wf(2) 2 this] t1 show ?case unfolding out by (blast intro: tracks_append)
qed

lemma format_inline_tracks:
  "format_inline depth env st node para = Some (Inr (out, st')) \<Longrightarrow> 0 \<le> opened_sections st
   \<Longrightarrow> tracks (opened_sections st) out (opened_sections st')"
proof (induction depth arbitrary: st para out st')
  case 0
  then show ?case by simp
next
  case (Suc depth)
  have n: "nested_tracks (\<lambda>st' contents. format_inline depth env st' node contents)"
    unfolding nested_tracks_def using Suc.IH by blast
  from Suc.prems(1) obtain toks where
    sc: "scan docstring_alternatives para = Some (Inr toks)"
    and pt: "process_tokens (\<lambda>st' contents. format_inline depth env st' node contents)
               env st node toks = Some (Inr (out, st'))"
    by (auto simp: docstring_regex_eq split: option.splits sum.splits)
  from docstring_tokens_wf [OF sc] have "\<forall>tok \<in> set toks. wf_token tok" by blast
  from tokens_tracks [OF n this pt Suc.prems(2)] show ?case .
qed

lemma format_emissions_tracks:
  assumes "format_emissions depth env st node doc = Some (Inr (out, st'))"
    and "opened_sections st = 0"
  shows "tracks 0 out 0 \<and> opened_sections st' = 0"
proof (cases doc)
  case None
  with assms show ?thesis by (simp add: format_emissions_def tracks_Nil)
next
  case (Some para)
  from assms(1) Some obtain inline st1 where
    fi: "format_inline depth env st node para = Some (Inr (inline, st1))"
    by (auto simp: format_emissions_def Let_def split: option.splits sum.splits)
  let ?pre = "if \<not> processing_code st then [Text ''<p>''] else []"
  let ?post = "if \<not> processing_code st then [Text ''</p>''] else []"
  let ?k = "nat (opened_sections st1)"
  from assms(1) Some fi have out: "out = ?pre @ inline @ ?post @ replicate ?k SectionClose"
    and st': "opened_sections st' = min (opened_sections st1) 0"
    by (auto simp: format_emissions_def Let_def close_all_replicate)
  from format_inline_tracks [OF fi] assms(2)
  have t1: "tracks 0 inline (opened_sections st1)" by simp
  then have ge: "0 \<le> opened_sections st1"
    by (auto simp: tracks_def dest: spec [of _ "length inline"])
  have t0: "tracks 0 ?pre 0" by (simp add: tracks_texts tracks_Nil is_text_def)
  have t2: "tracks (opened_sections st1) ?post (opened_sections st1)"
    using ge by (simp add: tracks_texts tracks_Nil is_text_def)
  have t3: "tracks (opened_sections st1) (replicate ?k SectionClose) 0"
    using tracks_closes [of ?k "opened_sections st1"] ge by simp
  from tracks_append [OF t0 tracks_append [OF t1 tracks_append [OF t2 t3]]]
  have "tracks 0 out 0" unfolding out .
  with st' ge show ?thesis by simp
qed

text \<open>
  C1.  When \<open>format\<close> is called with no section open and returns, it has written as many
  \<open><section>\<close> as \<open></section>\<close>, at no point more \<open></section>\<close> than \<open><section>\<close>,
  and it leaves no section open.  Headings may skip levels.
\<close>

theorem sections_balanced:
  assumes "format_emissions depth env st node doc = Some (Inr (out, st'))"
    and "opened_sections st = 0"
  shows "count_list out SectionOpen = count_list out SectionClose
         \<and> (\<forall>n. count_list (take n out) SectionClose \<le> count_list (take n out) SectionOpen)
         \<and> opened_sections st' = 0"
proof -
  from format_emissions_tracks [OF assms] have t: "tracks 0 out 0"
    and z: "opened_sections st' = 0" by simp_all
  from t have "int (count_list out SectionOpen) = int (count_list out SectionClose)"
    and "\<And>n. int (count_list (take n out) SectionClose) \<le> int (count_list (take n out) SectionOpen)"
    by (auto simp: tracks_def net_def)
  with z show ?thesis by auto
qed

lemma skipping_example:
  "format_emissions 10 example_env init_state widget (Some skipping_doc)
     = Some (Inr (skipping_out, init_state))"
  by code_simp

theorem sections_balanced_witness:
  "format_emissions 10 example_env init_state widget (Some skipping_doc)
     = Some (Inr (skipping_out, init_state))
   \<and> opened_sections init_state = 0
   \<and> count_list skipping_out SectionOpen = count_list skipping_out SectionClose
   \<and> (\<forall>n. count_list (take n skipping_out) SectionClose
            \<le> count_list (take n skipping_out) SectionOpen)"
proof -
  have z: "opened_sections init_state = 0" by (simp add: init_state_def)
  from sections_balanced [OF skipping_example z] skipping_example z show ?thesis by blast
qed

section \<open>One document after another\<close>

lemma oview_cases:
  assumes "map_option view r1 = map_option view r2"
  shows "(r1 = None \<and> r2 = None) \<or> (\<exists>e. r1 = Some (Inl e) \<and> r2 = Some (Inl e))
         \<or> (\<exists>x s1 s2. r1 = Some (Inr (x, s1)) \<and> r2 = Some (Inr (x, s2)) \<and> core s1 = core s2)"
proof (cases r1)
  case None
  with assms show ?thesis by simp
next
  case (Some a)
  with assms obtain b where b: "r2 = Some b" "view a = view b" by (cases r2) auto
  from b(2) Some b(1) show ?thesis
    by (cases a; cases b) (auto simp: view_def)
qed

lemma view_include:
  assumes "nested_same nested" and "core st1 = core st2"
  shows "map_option view (process_include nested env st1 match props)
         = map_option view (process_include nested env st2 match props)"
proof (cases "prop_str props ''include_name''")
  case (Inl e)
  then show ?thesis by (simp add: process_include_def view_def)
next
  case (Inr include_name)
  from assms(2) have pc: "processing_code st1 = processing_code st2" by (simp add: core_def)
  show ?thesis
  proof (cases "open_include env (py_strip include_name)")
    case None
    with Inr show ?thesis using assms(2) by (simp add: process_include_def view_def)
  next
    case (Some contents)
    show ?thesis
    proof (cases "processing_code st2")
      case True
      have "view (text_of (resolve_implicit_links env st1 contents))
            = view (text_of (resolve_implicit_links env st2 contents))"
        using assms(2) by (intro view_text_of [where c = "core st2"])
          (auto simp: implicit_links_output dest: implicit_links_core)
      with Inr Some True pc show ?thesis by (simp add: process_include_def)
    next
      case False
      from assms have "map_option view (nested st1 contents) = map_option view (nested st2 contents)"
        unfolding nested_same_def by blast
      with Inr Some pc False show ?thesis by (simp add: process_include_def)
    qed
  qed
qed

lemma view_token:
  assumes "nested_same nested" and "core st1 = core st2"
  shows "map_option view (process_token nested env st1 node tok)
         = map_option view (process_token nested env st2 node tok)"
proof -
  obtain kind match props where tok: "tok = (kind, match, props)" by (cases tok)
  note v = view_other [OF assms(2)] view_property [OF assms(2)] view_signal [OF assms(2)]
    view_type_name [OF assms(2)] view_enum_value [OF assms(2)] view_parameter [OF assms(2)]
    view_function_call [OF assms(2)] view_simple [OF assms(2)] view_include [OF assms]
  show ?thesis unfolding tok process_token_def by (simp add: v)
qed

lemma view_tokens:
  assumes "nested_same nested"
  shows "core st1 = core st2 \<Longrightarrow>
         map_option view (process_tokens nested env st1 node toks)
         = map_option view (process_tokens nested env st2 node toks)"
proof (induction toks arbitrary: st1 st2)
  case Nil
  then show ?case by (simp add: view_def)
next
  case (Cons tok toks)
  from oview_cases [OF view_token [OF assms Cons.prems, of env node tok]]
  show ?case
  proof (elim disjE exE conjE)
    assume "process_token nested env st1 node tok = None"
      "process_token nested env st2 node tok = None"
    then show ?thesis by simp
  next
    fix e assume "process_token nested env st1 node tok = Some (Inl e)"
      "process_token nested env st2 node tok = Some (Inl e)"
    then show ?thesis by (simp add: view_def)
  next
    fix x s1 s2 assume t: "process_token nested env st1 node tok = Some (Inr (x, s1))"
      "process_token nested env st2 node tok = Some (Inr (x, s2))" and c: "core s1 = core s2"
    from oview_cases [OF Cons.IH [OF c]] t show ?thesis
      by (elim disjE exE conjE) (simp_all add: view_def)
  qed
qed

lemma view_format_inline:
  "core st1 = core st2 \<Longrightarrow>
   map_option view (format_inline depth env st1 node para)
   = map_option view (format_inline depth env st2 node para)"
proof (induction depth arbitrary: st1 st2 para)
  case 0
  then show ?case by (simp add: view_def)
next
  case (Suc depth)
  have n: "nested_same (\<lambda>st' contents. format_inline depth env st' node contents)"
    unfolding nested_same_def using Suc.IH by blast
  show ?case
  proof (cases "scan docstring_alternatives para")
    case None
    then show ?thesis by (simp add: docstring_regex_eq)
  next
    case (Some r)
    then show ?thesis using view_tokens [OF n Suc.prems, of env node]
      by (cases r) (simp_all add: docstring_regex_eq)
  qed
qed

lemma view_format_emissions:
  assumes "core st1 = core st2"
  shows "map_option view (format_emissions depth env st1 node doc)
         = map_option view (format_emissions depth env st2 node doc)"
proof (cases doc)
  case None
  with assms show ?thesis by (simp add: format_emissions_def view_def)
next
  case (Some para)
  from assms have pc: "processing_code st1 = processing_code st2" by (simp add: core_def)
  from oview_cases [OF view_format_inline [OF assms, of depth env node para]]
  show ?thesis
  proof (elim disjE exE conjE)
    fix x s1 s2 assume "format_inline depth env st1 node para = Some (Inr (x, s1))"
      "format_inline depth env st2 node para = Some (Inr (x, s2))" and c: "core s1 = core s2"
    with Some pc show ?thesis
      by (simp add: format_emissions_def Let_def close_all_replicate view_def core_def)
  qed (simp_all add: Some format_emissions_def Let_def view_def)
qed

lemma format_output_same:
  assumes "core st1 = core st2"
  shows "map_option (map_sum id fst) (format depth env st1 node doc)
         = map_option (map_sum id fst) (format depth env st2 node doc)"
  using oview_cases [OF view_format_emissions [OF assms, of depth env node doc]]
  by (elim disjE exE conjE) (simp_all add: format_def)

text \<open>
  C8, as the code has it.  When \<open>format\<close> has returned for a document and the formatter
  is inside a code block exactly if it was before, the next document is formatted as if it
  were the first: no section is left open, and the namespaces already warned about and the
  warnings sent have no part in what \<open>format\<close> returns.
\<close>

theorem documents_independent:
  assumes "format depth env st0 node_a doc_a = Some (Inr (out_a, st_a))"
    and "opened_sections st0 = 0"
    and "processing_code st_a = processing_code st0"
  shows "map_option (map_sum id fst) (format depth env st_a node_b doc_b)
         = map_option (map_sum id fst) (format depth env st0 node_b doc_b)
         \<and> opened_sections st_a = 0"
proof -
  from assms(1) obtain r where r: "format_emissions depth env st0 node_a doc_a = Some r"
    and m: "map_sum id (\<lambda>(out, st'). (render out, st')) r = Inr (out_a, st_a)"
    by (auto simp: format_def)
  from m obtain out where "r = Inr (out, st_a)" by (cases r) auto
  with r have "format_emissions depth env st0 node_a doc_a = Some (Inr (out, st_a))" by simp
  from format_emissions_tracks [OF this assms(2)] have z: "opened_sections st_a = 0" by simp
  with assms(2,3) have "core st_a = core st0" by (simp add: core_def)
  from format_output_same [OF this] z show ?thesis by simp
qed

text \<open>
  The claim as written fails after the document \<open>|[\<close>, which opens a code block and does
  not close it: the next document is formatted as code, without \<open><p>\<close> and \<open></p>\<close>.
\<close>

theorem code_flag_carries_over_counterexample:
  "format 10 example_env init_state widget (Some ''|['')
     = Some (Inr (''<p></p><code></p>'', after_code_start))
   \<and> format 10 example_env after_code_start widget (Some ''x'') = Some (Inr (''x'', after_code_start))
   \<and> format 10 example_env init_state widget (Some ''x'') = Some (Inr (''<p>x</p>'', init_state))"
  by code_simp

lemma missing_include_example:
  "format 10 example_env init_state widget (Some ''{{ a.txt }}'')
     = Some (Inr (''<p>{{ a.txt }}</p>'', after_missing_include))"
  by code_simp

theorem documents_independent_witness:
  "format 10 example_env init_state widget (Some ''{{ a.txt }}'')
     = Some (Inr (''<p>{{ a.txt }}</p>'', after_missing_include))
   \<and> opened_sections init_state = 0
   \<and> processing_code after_missing_include = processing_code init_state
   \<and> after_missing_include \<noteq> init_state
   \<and> map_option (map_sum id fst) (format 10 example_env after_missing_include widget (Some ''# T''))
       = map_option (map_sum id fst) (format 10 example_env init_state widget (Some ''# T''))
   \<and> opened_sections after_missing_include = 0"
proof -
  have z: "opened_sections init_state = 0" by (simp add: init_state_def)
  have p: "processing_code after_missing_include = processing_code init_state"
    by (simp add: after_missing_include_def)
  have n: "after_missing_include \<noteq> init_state"
    by (simp add: after_missing_include_def init_state_def)
  from documents_independent [OF missing_include_example z p, of widget "Some ''# T''"]
    missing_include_example z p n
  show ?thesis by blast
qed

end
